theory Spec2Isabelle
  imports Main "HOL-Library.Monad_Syntax"
begin

section \<open>JavaScript values and the built-in operations the parsers use\<close>

text \<open>
  Both parsers are TypeScript whose type annotations are erased at run time: a decoded
  document is an arbitrary JavaScript value and every cast \<open>x as T\<close> is the identity.
  The model therefore works on run-time values.

  \<^item> A number is represented by its canonical rendering \<open>String(n)\<close> (\<open>''0''\<close>,
    \<open>''-1.5''\<close>, \<open>''NaN''\<close>): the parsers only test numbers for truthiness, compare a
    length with zero and interpolate them into strings.
  \<^item> An object is the list of its own enumerable properties in \<open>Object.keys\<close> order,
    with distinct keys.
  \<^item> A string is a list of characters; the model is exact on ASCII text (lengths and
    offsets count characters, case mapping touches the letters A-Z and a-z only).
  \<^item> A decoded document is a tree: no two places in it hold the same object reference.
  \<^item> A thrown \<open>TypeError\<close> (reading a property of \<open>null\<close>/\<open>undefined\<close>, calling
    a method a value does not have, iterating a non-iterable, converting an object
    without a usable \<open>toString\<close>) is the value \<open>None\<close> of the option monad.
\<close>

datatype jsval =
    JUndefined
  | JNull
  | JBool bool
  | JNum string
  | JStr string
  | JArr "jsval list"
  | JObj "(string \<times> jsval) list"

definition digit_char :: "nat \<Rightarrow> char" where
  "digit_char d = char_of (48 + d)"

function decimal :: "nat \<Rightarrow> string" where
  "decimal n = (if n < 10 then [digit_char n] else decimal (n div 10) @ [digit_char (n mod 10)])"
  by pat_completeness auto
termination
  by (relation "measure (\<lambda>n. n)") auto

definition is_digit :: "char \<Rightarrow> bool" where
  "is_digit c = (c \<in> set ''0123456789'')"

definition digit_val :: "char \<Rightarrow> nat" where
  "digit_val c = of_char c - 48"

text \<open>A property key that is a canonical array index (\<open>''0''\<close>, \<open>''17''\<close>, not \<open>''01''\<close>).\<close>

definition array_index :: "string \<Rightarrow> nat option" where
  "array_index k =
     (if k \<noteq> [] \<and> list_all is_digit k \<and> (hd k \<noteq> CHR ''0'' \<or> k = ''0'')
      then Some (foldl (\<lambda>n c. 10 * n + digit_val c) 0 k) else None)"

text \<open>\<open>!!v\<close>: the falsy values are \<open>undefined\<close>, \<open>null\<close>, \<open>false\<close>, \<open>0\<close>, \<open>NaN\<close> and \<open>''''\<close>.\<close>

fun truthy :: "jsval \<Rightarrow> bool" where
  "truthy JUndefined = False"
| "truthy JNull = False"
| "truthy (JBool b) = b"
| "truthy (JNum r) = (r \<noteq> ''0'' \<and> r \<noteq> ''NaN'')"
| "truthy (JStr s) = (s \<noteq> [])"
| "truthy (JArr xs) = True"
| "truthy (JObj kvs) = True"

text \<open>\<open>a || b\<close> where evaluating \<open>b\<close> cannot throw.\<close>

definition or_js :: "jsval \<Rightarrow> jsval \<Rightarrow> jsval" where
  "or_js a b = (if truthy a then a else b)"

definition nullish :: "jsval \<Rightarrow> bool" where
  "nullish v = (v = JUndefined \<or> v = JNull)"

text \<open>
  \<open>v[k]\<close> on a value that is neither \<open>null\<close> nor \<open>undefined\<close>. None of the keys the
  parsers read by name is a member of a built-in prototype, so a key that is not an own
  property reads as \<open>undefined\<close>.
\<close>

fun js_prop :: "jsval \<Rightarrow> string \<Rightarrow> jsval" where
  "js_prop (JObj kvs) k = (case map_of kvs k of Some v \<Rightarrow> v | None \<Rightarrow> JUndefined)"
| "js_prop (JArr xs) k =
     (if k = ''length'' then JNum (decimal (length xs))
      else case array_index k of
             Some i \<Rightarrow> if i < length xs then xs ! i else JUndefined
           | None \<Rightarrow> JUndefined)"
| "js_prop (JStr s) k =
     (if k = ''length'' then JNum (decimal (length s))
      else case array_index k of
             Some i \<Rightarrow> if i < length s then JStr [s ! i] else JUndefined
           | None \<Rightarrow> JUndefined)"
| "js_prop v k = JUndefined"

text \<open>\<open>v.k\<close>: a \<open>TypeError\<close> when \<open>v\<close> is \<open>null\<close> or \<open>undefined\<close>.\<close>

definition getp :: "jsval \<Rightarrow> string \<Rightarrow> jsval option" where
  "getp v k = (if nullish v then None else Some (js_prop v k))"

text \<open>\<open>v?.k\<close>.\<close>

definition opt_chain :: "jsval \<Rightarrow> string \<Rightarrow> jsval" where
  "opt_chain v k = (if nullish v then JUndefined else js_prop v k)"

text \<open>The own enumerable properties of a value that is neither \<open>null\<close> nor \<open>undefined\<close>.\<close>

fun own_entries :: "jsval \<Rightarrow> (string \<times> jsval) list" where
  "own_entries (JObj kvs) = kvs"
| "own_entries (JArr xs) = zip (map decimal [0..<length xs]) xs"
| "own_entries (JStr s) = zip (map decimal [0..<length s]) (map (\<lambda>c. JStr [c]) s)"
| "own_entries v = []"

text \<open>\<open>Object.entries(v)\<close>, \<open>Object.keys(v)\<close>, \<open>Object.values(v)\<close>.\<close>

definition Object_entries :: "jsval \<Rightarrow> (string \<times> jsval) list option" where
  "Object_entries v = (if nullish v then None else Some (own_entries v))"

definition Object_keys :: "jsval \<Rightarrow> string list option" where
  "Object_keys v = map_option (map fst) (Object_entries v)"

definition Object_values :: "jsval \<Rightarrow> jsval list option" where
  "Object_values v = map_option (map snd) (Object_entries v)"

text \<open>\<open>xs[0]\<close> on a JavaScript array built by the code itself.\<close>

definition first_or_undefined :: "jsval list \<Rightarrow> jsval" where
  "first_or_undefined xs = (case xs of [] \<Rightarrow> JUndefined | x # _ \<Rightarrow> x)"

text \<open>The elements a \<open>for ... of\<close> loop or a spread \<open>[...v]\<close> visits.\<close>

fun iterate :: "jsval \<Rightarrow> jsval list option" where
  "iterate (JArr xs) = Some xs"
| "iterate (JStr s) = Some (map (\<lambda>c. JStr [c]) s)"
| "iterate v = None"

fun mapM :: "('a \<Rightarrow> 'b option) \<Rightarrow> 'a list \<Rightarrow> 'b list option" where
  "mapM f [] = Some []"
| "mapM f (x # xs) = do { y \<leftarrow> f x; ys \<leftarrow> mapM f xs; Some (y # ys) }"

lemma mapM_cong [fundef_cong]:
  "xs = ys \<Longrightarrow> (\<And>x. x \<in> set ys \<Longrightarrow> f x = g x) \<Longrightarrow> mapM f xs = mapM g ys"
  by (induction ys arbitrary: xs) auto

fun join :: "string \<Rightarrow> string list \<Rightarrow> string" where
  "join sep [] = []"
| "join sep [x] = x"
| "join sep (x # y # ys) = x @ sep @ join sep (y # ys)"

text \<open>
  \<open>String(v)\<close> and \<open>`${v}`\<close>. An array joins its elements with a comma; a plain object
  renders as \<open>[object Object]\<close> unless an own \<open>toString\<close> property (never callable in a
  decoded document) hides the inherited method.
\<close>

fun tostr :: "jsval \<Rightarrow> string option" where
  "tostr JUndefined = Some ''undefined''"
| "tostr JNull = Some ''null''"
| "tostr (JBool b) = Some (if b then ''true'' else ''false'')"
| "tostr (JNum r) = Some r"
| "tostr (JStr s) = Some s"
| "tostr (JArr xs) =
     map_option (join '','') (mapM (\<lambda>x. if nullish x then Some [] else tostr x) xs)"
| "tostr (JObj kvs) = (if ''toString'' \<in> fst ` set kvs then None else Some ''[object Object]'')"

definition lower_char :: "char \<Rightarrow> char" where
  "lower_char c =
     (if (65::nat) \<le> of_char c \<and> of_char c \<le> (90::nat) then char_of (of_char c + (32::nat)) else c)"

definition upper_char :: "char \<Rightarrow> char" where
  "upper_char c =
     (if (97::nat) \<le> of_char c \<and> of_char c \<le> (122::nat) then char_of (of_char c - (32::nat)) else c)"

definition toLowerCase :: "string \<Rightarrow> string" where
  "toLowerCase s = map lower_char s"

definition toUpperCase :: "string \<Rightarrow> string" where
  "toUpperCase s = map upper_char s"

text \<open>\<open>v.toLowerCase()\<close>: only a string has the method.\<close>

fun call_toLowerCase :: "jsval \<Rightarrow> string option" where
  "call_toLowerCase (JStr s) = Some (toLowerCase s)"
| "call_toLowerCase v = None"

text \<open>\<open>s.includes(t)\<close> on strings.\<close>

definition str_includes :: "string \<Rightarrow> string \<Rightarrow> bool" where
  "str_includes s t = list_ex (\<lambda>i. take (length t) (drop i s) = t) [0..<Suc (length s)]"

text \<open>\<open>v.includes(name)\<close> for a string \<open>name\<close>: arrays and strings have the method.\<close>

fun call_includes :: "jsval \<Rightarrow> string \<Rightarrow> bool option" where
  "call_includes (JArr xs) name = Some (JStr name \<in> set xs)"
| "call_includes (JStr s) name = Some (str_includes s name)"
| "call_includes v name = None"

text \<open>\<open>s.replace(/[...]/g, '_')\<close> for a character class given as the list of its members.\<close>

definition replace_chars :: "string \<Rightarrow> string \<Rightarrow> string \<Rightarrow> string" where
  "replace_chars cls by s = concat (map (\<lambda>c. if c \<in> set cls then by else [c]) s)"

text \<open>\<open>v.filter(f)\<close>: only an array has the method.\<close>

fun call_filter :: "jsval \<Rightarrow> (jsval \<Rightarrow> bool option) \<Rightarrow> jsval list option" where
  "call_filter (JArr xs) f = map_option (\<lambda>bs. map fst (filter snd (zip xs bs))) (mapM f xs)"
| "call_filter v f = None"

text \<open>
  The key comparison of \<open>Map\<close> (SameValueZero): primitives by value, objects and arrays
  by reference, and in a tree no two places hold the same reference.
\<close>

fun same_value_zero :: "jsval \<Rightarrow> jsval \<Rightarrow> bool" where
  "same_value_zero (JArr xs) b = False"
| "same_value_zero (JObj kvs) b = False"
| "same_value_zero a b = (a = b)"

text \<open>A \<open>Map\<close> in insertion order: \<open>has\<close>, \<open>set\<close> (an existing key keeps its place).\<close>

definition map_has :: "(jsval \<times> 'v) list \<Rightarrow> jsval \<Rightarrow> bool" where
  "map_has m k = list_ex (\<lambda>kv. same_value_zero (fst kv) k) m"

fun map_set :: "(jsval \<times> 'v) list \<Rightarrow> jsval \<Rightarrow> 'v \<Rightarrow> (jsval \<times> 'v) list" where
  "map_set [] k v = [(k, v)]"
| "map_set ((k', v') # m) k v =
     (if same_value_zero k' k then (k', v) # m else (k', v') # map_set m k v)"

fun map_update :: "(jsval \<times> 'v) list \<Rightarrow> jsval \<Rightarrow> ('v \<Rightarrow> 'v) \<Rightarrow> (jsval \<times> 'v) list" where
  "map_update [] k f = []"
| "map_update ((k', v') # m) k f =
     (if same_value_zero k' k then (k', f v') # m else (k', v') # map_update m k f)"

text \<open>
  What the parsers take from the platform: the two decoders (\<open>None\<close> when the decoder
  throws), whether a string converts to a number greater than zero (for \<open>x > 0\<close> on a
  string), and the path name of a URL (\<open>None\<close> when \<open>new URL\<close> throws).
\<close>

record platform =
  JSON_parse :: "string \<Rightarrow> jsval option"
  yaml_load :: "string \<Rightarrow> jsval option"
  string_is_positive_number :: "string \<Rightarrow> bool"
  URL_pathname :: "string \<Rightarrow> string option"

definition num_positive :: "string \<Rightarrow> bool" where
  "num_positive r = (r \<noteq> [] \<and> r \<noteq> ''0'' \<and> r \<noteq> ''NaN'' \<and> hd r \<noteq> CHR ''-'')"

text \<open>\<open>v > 0\<close>: an object or array is converted to a string first.\<close>

fun js_gt_zero :: "platform \<Rightarrow> jsval \<Rightarrow> bool option" where
  "js_gt_zero P JUndefined = Some False"
| "js_gt_zero P JNull = Some False"
| "js_gt_zero P (JBool b) = Some b"
| "js_gt_zero P (JNum r) = Some (num_positive r)"
| "js_gt_zero P (JStr s) = Some (string_is_positive_number P s)"
| "js_gt_zero P v = map_option (string_is_positive_number P) (tostr v)"

definition em_dash :: string where
  "em_dash = [char_of (226::nat), char_of (128::nat), char_of (148::nat)]"

section \<open>The canonical model (types.ts)\<close>

type_synonym HttpMethod = string

datatype AuthType = apiKey | bearer | basic | oauth2 | none | unknown

datatype PaginationType = pg_cursor | pg_offset | pg_page | pg_unknown

datatype SourceType = openapi | text_source

text \<open>
  A field the code fills by passing a document value through (whatever its TypeScript
  annotation) has type \<open>jsval\<close>; an optional field that is absent is \<open>JUndefined\<close>,
  or \<open>None\<close> where the field has a type of its own.
\<close>

record AuthScheme =
  auth_type :: AuthType
  headerName :: jsval
  queryParamName :: jsval
  scheme :: jsval
  auth_description :: jsval
  flows :: jsval

datatype SchemaField = SchemaField
  (sf_name: string) (sf_type: jsval) (sf_required: bool) (sf_description: jsval)
  (sf_default: jsval) (sf_enum: jsval) (sf_example: jsval) (sf_nested: "SchemaField list option")

record Parameter =
  param_name :: jsval
  param_in :: jsval
  param_required :: bool
  param_description :: jsval
  param_type :: jsval
  param_default :: jsval
  param_enum :: jsval
  param_example :: jsval

record RequestBody =
  rb_required :: bool
  contentType :: jsval
  rb_schema :: "SchemaField list"
  rb_example :: jsval

record ResponseDef =
  statusCode :: string
  resp_description :: jsval
  resp_schema :: "SchemaField list option"
  resp_example :: jsval

record Endpoint =
  ep_id :: jsval
  ep_method :: HttpMethod
  ep_path :: string
  summary :: jsval
  ep_description :: jsval
  tag :: jsval
  operationId :: jsval
  parameters :: "Parameter list"
  requestBody :: "RequestBody option"
  responses :: "ResponseDef list"
  auth_required :: bool
  deprecated :: "bool option"

record TagGroup =
  tg_name :: jsval
  tg_description :: jsval
  endpointIds :: "jsval list"

record PaginationHint =
  pg_type :: PaginationType
  pg_parameters :: "jsval list"
  pg_description :: jsval

record RateLimitHint =
  rl_statusCode :: nat
  retryHeader :: string
  rl_description :: jsval

record ApiSpec =
  title :: jsval
  description :: jsval
  version :: jsval
  baseUrl :: jsval
  auth :: AuthScheme
  endpoints :: "Endpoint list"
  tags :: "TagGroup list"
  paginationHints :: "PaginationHint list"
  rateLimitHints :: "RateLimitHint list"
  sourceType :: SourceType

record ParseResult =
  spec :: ApiSpec
  warnings :: "string list"
  todos :: "string list"

section \<open>The OpenAPI / Swagger parser\<close>

subsection \<open>Base URL\<close>

definition extractBaseUrl :: "platform \<Rightarrow> jsval \<Rightarrow> bool \<Rightarrow> jsval option" where
  "extractBaseUrl P doc isSwagger2 =
     (if isSwagger2 then do {
        host \<leftarrow> getp doc ''host'';
        basePath0 \<leftarrow> getp doc ''basePath'';
        let basePath = or_js basePath0 (JStr '''');
        schemes0 \<leftarrow> getp doc ''schemes'';
        let schemes = or_js schemes0 (JArr [JStr ''https'']);
        if truthy host then do {
          scheme0 \<leftarrow> getp schemes ''0'';
          s \<leftarrow> tostr scheme0;
          h \<leftarrow> tostr host;
          b \<leftarrow> tostr basePath;
          Some (JStr (s @ ''://'' @ h @ b))
        } else Some JNull
      } else do {
        servers \<leftarrow> getp doc ''servers'';
        if \<not> truthy servers then Some JNull
        else do {
          len \<leftarrow> getp servers ''length'';
          positive \<leftarrow> js_gt_zero P len;
          if positive then do {
            server0 \<leftarrow> getp servers ''0'';
            getp server0 ''url''
          } else Some JNull
        }
      })"

subsection \<open>Auth\<close>

definition extractAuth :: "jsval \<Rightarrow> bool \<Rightarrow> string list \<Rightarrow> (AuthScheme \<times> string list) option" where
  "extractAuth doc isSwagger2 ws = do {
     secDefs \<leftarrow> (if isSwagger2 then getp doc ''securityDefinitions''
                 else do { components \<leftarrow> getp doc ''components'';
                           Some (opt_chain components ''securitySchemes'') });
     if \<not> truthy secDefs \<or> length (own_entries secDefs) = 0 then
       Some (\<lparr>auth_type = none, headerName = JUndefined, queryParamName = JUndefined,
              scheme = JUndefined, auth_description = JStr ''No authentication detected.'',
              flows = JUndefined\<rparr>,
             ws @ [''No security schemes found '' @ em_dash @
                         '' API might be public or auth docs are missing.''])
     else do {
       vals \<leftarrow> Object_values secDefs;
       let first = first_or_undefined vals;
       type0 \<leftarrow> getp first ''type'';
       schemeType \<leftarrow> call_toLowerCase (or_js type0 (JStr ''''));
       fdescription \<leftarrow> getp first ''description'';
       if schemeType = ''apikey'' then do {
         fin \<leftarrow> getp first ''in'';
         fname \<leftarrow> getp first ''name'';
         d \<leftarrow> (if truthy fdescription then Some fdescription
               else do { i \<leftarrow> tostr fin; n \<leftarrow> tostr fname;
                         Some (JStr (''API Key in '' @ i @ '': '' @ n)) });
         Some (\<lparr>auth_type = apiKey,
                headerName = (if fin = JStr ''header'' then fname else JUndefined),
                queryParamName = (if fin = JStr ''query'' then fname else JUndefined),
                scheme = JUndefined, auth_description = d, flows = JUndefined\<rparr>, ws)
       }
       else if schemeType = ''http'' then do {
         fscheme \<leftarrow> getp first ''scheme'';
         sch \<leftarrow> call_toLowerCase (or_js fscheme (JStr ''''));
         if sch = ''bearer'' then
           Some (\<lparr>auth_type = bearer, headerName = JUndefined, queryParamName = JUndefined,
                  scheme = JStr ''bearer'',
                  auth_description = or_js fdescription (JStr ''Bearer token authentication''),
                  flows = JUndefined\<rparr>, ws)
         else
           Some (\<lparr>auth_type = basic, headerName = JUndefined, queryParamName = JUndefined,
                  scheme = JStr ''basic'',
                  auth_description = or_js fdescription (JStr ''Basic authentication''),
                  flows = JUndefined\<rparr>, ws)
       }
       else if schemeType = ''oauth2'' then do {
         fflows \<leftarrow> getp first ''flows'';
         Some (\<lparr>auth_type = oauth2, headerName = JUndefined, queryParamName = JUndefined,
                scheme = JUndefined,
                auth_description = or_js fdescription (JStr ''OAuth 2.0 authentication''),
                flows = fflows\<rparr>, ws)
       }
       else
         Some (\<lparr>auth_type = unknown, headerName = JUndefined, queryParamName = JUndefined,
                scheme = JUndefined,
                auth_description = JStr (''Detected scheme type: '' @ schemeType),
                flows = JUndefined\<rparr>, ws)
     }
   }"

subsection \<open>Schemas, parameters, request bodies, responses\<close>

function flattenSchema :: "jsval \<Rightarrow> SchemaField list option" where
  "flattenSchema schema =
     (if \<not> truthy schema then Some []
      else do {
        type \<leftarrow> getp schema ''type'';
        props \<leftarrow> getp schema ''properties'';
        if type = JStr ''object'' \<or> truthy props then do {
          let properties = or_js props (JObj []);
          required0 \<leftarrow> getp schema ''required'';
          let required = or_js required0 (JArr []);
          es \<leftarrow> Object_entries properties;
          mapM (\<lambda>(name, p). do {
                  ptype \<leftarrow> getp p ''type'';
                  req \<leftarrow> call_includes required name;
                  pdescription \<leftarrow> getp p ''description'';
                  pdefault \<leftarrow> getp p ''default'';
                  penum \<leftarrow> getp p ''enum'';
                  pexample \<leftarrow> getp p ''example'';
                  pprops \<leftarrow> getp p ''properties'';
                  nested \<leftarrow> (if ptype = JStr ''object'' \<or> truthy pprops
                             then map_option Some (flattenSchema p) else Some None);
                  Some (SchemaField name (or_js ptype (JStr ''string'')) req
                          (or_js pdescription (JStr '''')) pdefault penum pexample nested)
                }) es
        }
        else if type = JStr ''array'' then do {
          items \<leftarrow> getp schema ''items'';
          sdescription \<leftarrow> getp schema ''description'';
          nested \<leftarrow> flattenSchema items;
          Some [SchemaField ''items'' (JStr ''array'') False
                  (or_js sdescription (JStr ''Array items'')) JUndefined JUndefined JUndefined
                  (Some nested)]
        }
        else do {
          sdescription \<leftarrow> getp schema ''description'';
          Some [SchemaField ''value'' (or_js type (JStr ''string'')) False
                  (or_js sdescription (JStr '''')) JUndefined JUndefined JUndefined None]
        }
      })"
  by pat_completeness auto

lemma size_obj_member: "(k, v) \<in> set kvs \<Longrightarrow> size v < size (JObj kvs)"
  by (induction kvs) auto

lemma size_arr_member: "v \<in> set xs \<Longrightarrow> size v < size (JArr xs)"
  by (induction xs) auto

lemma size_js_prop: "size (js_prop v k) < size v \<or> size (js_prop v k) = 0"
proof (cases v)
  case (JObj kvs)
  show ?thesis
  proof (cases "map_of kvs k")
    case None
    with JObj show ?thesis by simp
  next
    case (Some x)
    then have "(k, x) \<in> set kvs" by (rule map_of_SomeD)
    from size_obj_member[OF this] Some JObj show ?thesis by simp
  qed
next
  case (JArr xs)
  show ?thesis
  proof (cases "k = ''length''")
    case True
    with JArr show ?thesis by simp
  next
    case False
    show ?thesis
    proof (cases "array_index k")
      case None
      with JArr False show ?thesis by simp
    next
      case (Some i)
      show ?thesis
      proof (cases "i < length xs")
        case True
        then have "xs ! i \<in> set xs" by simp
        from size_arr_member[OF this] JArr False Some True show ?thesis by simp
      next
        case False
        with JArr \<open>k \<noteq> ''length''\<close> Some show ?thesis by simp
      qed
    qed
  qed
qed (simp_all split: option.splits)

lemma size_own_entries: "(k, y) \<in> set (own_entries v) \<Longrightarrow> size y < size v \<or> size y = 0"
proof (cases v)
  case (JObj kvs)
  assume "(k, y) \<in> set (own_entries v)"
  with JObj size_obj_member[of k y kvs] show ?thesis by simp
next
  case (JArr xs)
  assume "(k, y) \<in> set (own_entries v)"
  with JArr have "y \<in> set xs" by (auto dest: set_zip_rightD)
  with JArr size_arr_member[of y xs] show ?thesis by simp
next
  case (JStr s)
  assume "(k, y) \<in> set (own_entries v)"
  with JStr show ?thesis by (auto dest!: set_zip_rightD)
qed auto

lemma array_index_type [simp]: "array_index ''type'' = None"
  by (simp add: array_index_def is_digit_def)

lemma array_index_properties [simp]: "array_index ''properties'' = None"
  by (simp add: array_index_def is_digit_def)

lemma schema_like_size:
  "js_prop y ''type'' = JStr t \<or> truthy (js_prop y ''properties'') \<Longrightarrow> 0 < size y"
  by (cases y) auto

termination flattenSchema
proof (relation "measure size", goal_cases)
  case 1
  show ?case by simp
next
  case (2 schema a aa x ab xa ac xb xc y ad ae af ag ah ai aj)
  from 2 have y: "0 < size y"
    using schema_like_size[of y] by (auto simp: getp_def split: if_splits)
  from 2 have mem: "(xc, y) \<in> set (own_entries x)"
    by (auto simp: Object_entries_def split: if_splits)
  from size_own_entries[OF mem] y have xy: "size y < size x" by simp
  have "x = aa"
  proof (cases "truthy aa")
    case True
    with 2 show ?thesis by (simp add: or_js_def)
  next
    case False
    with 2 have "x = JObj []" by (simp add: or_js_def)
    with mem show ?thesis by simp
  qed
  moreover from 2 have "aa = js_prop schema ''properties''"
    by (auto simp: getp_def split: if_splits)
  ultimately have "size x < size schema \<or> size x = 0"
    using size_js_prop[of schema "''properties''"] by simp
  with xy show ?case by simp
next
  case (3 schema a aa ab ac)
  then have "0 < size schema"
    using schema_like_size[of schema "''array''"] by (auto simp: getp_def split: if_splits)
  moreover from 3 have "ab = js_prop schema ''items''"
    by (auto simp: getp_def split: if_splits)
  ultimately show ?case
    using size_js_prop[of schema "''items''"] by auto
qed

declare flattenSchema.simps [simp del]

definition resolveParamType :: "jsval \<Rightarrow> jsval option" where
  "resolveParamType p = do {
     ptype \<leftarrow> getp p ''type'';
     if truthy ptype then Some ptype
     else do {
       schema \<leftarrow> getp p ''schema'';
       if truthy schema then do { stype \<leftarrow> getp schema ''type''; Some (or_js stype (JStr ''string'')) }
       else Some (JStr ''string'')
     }
   }"

text \<open>\<open>v !== undefined ? String(v) : undefined\<close>.\<close>

definition string_unless_undefined :: "jsval \<Rightarrow> jsval option" where
  "string_unless_undefined v = (if v \<noteq> JUndefined then map_option JStr (tostr v) else Some JUndefined)"

definition extractParameters :: "jsval \<Rightarrow> jsval \<Rightarrow> bool \<Rightarrow> Parameter list option" where
  "extractParameters op pathItem isSwagger2 = do {
     itemParams \<leftarrow> getp pathItem ''parameters'';
     xs \<leftarrow> iterate (or_js itemParams (JArr []));
     opParams \<leftarrow> getp op ''parameters'';
     ys \<leftarrow> iterate (or_js opParams (JArr []));
     mapM (\<lambda>p. do {
             pname \<leftarrow> getp p ''name'';
             pin \<leftarrow> getp p ''in'';
             prequired \<leftarrow> getp p ''required'';
             pdescription \<leftarrow> getp p ''description'';
             ptype \<leftarrow> resolveParamType p;
             pdefault \<leftarrow> getp p ''default'';
             default_str \<leftarrow> string_unless_undefined pdefault;
             penum \<leftarrow> getp p ''enum'';
             pexample \<leftarrow> getp p ''example'';
             example_str \<leftarrow> string_unless_undefined pexample;
             Some \<lparr>param_name = pname, param_in = pin, param_required = truthy prequired,
                   param_description = or_js pdescription (JStr ''''), param_type = ptype,
                   param_default = default_str, param_enum = penum,
                   param_example = example_str\<rparr>
           }) (xs @ ys)
   }"

text \<open>
  \<open>content['application/json'] || content[Object.keys(content)[0]]\<close>: the first key of
  \<open>Object.keys\<close>, or \<open>undefined\<close> (which reads the property named \<open>undefined\<close>).
\<close>

definition first_key :: "jsval \<Rightarrow> jsval" where
  "first_key content = (case own_entries content of [] \<Rightarrow> JUndefined | kv # _ \<Rightarrow> JStr (fst kv))"

definition property_key :: "jsval \<Rightarrow> string" where
  "property_key k = (case k of JStr s \<Rightarrow> s | _ \<Rightarrow> ''undefined'')"

definition json_or_first_content :: "jsval \<Rightarrow> jsval" where
  "json_or_first_content content =
     or_js (js_prop content ''application/json'') (js_prop content (property_key (first_key content)))"

definition extractRequestBody :: "jsval \<Rightarrow> bool \<Rightarrow> RequestBody option option" where
  "extractRequestBody op isSwagger2 =
     (if isSwagger2 then do {
        opParams \<leftarrow> getp op ''parameters'';
        bodyParams \<leftarrow> call_filter (or_js opParams (JArr []))
                        (\<lambda>p. map_option (\<lambda>i. i = JStr ''body'') (getp p ''in''));
        if length bodyParams = 0 then Some None
        else do {
          schema \<leftarrow> getp (first_or_undefined bodyParams) ''schema'';
          brequired \<leftarrow> getp (first_or_undefined bodyParams) ''required'';
          fields \<leftarrow> flattenSchema schema;
          Some (Some \<lparr>rb_required = truthy brequired, contentType = JStr ''application/json'',
                       rb_schema = fields,
                       rb_example = or_js (opt_chain schema ''example'') JUndefined\<rparr>)
        }
      } else do {
        rb \<leftarrow> getp op ''requestBody'';
        if \<not> truthy rb then Some None
        else do {
          content \<leftarrow> getp rb ''content'';
          if \<not> truthy content then Some None
          else do {
            let jsonContent = json_or_first_content content;
            if \<not> truthy jsonContent then Some None
            else do {
              schema \<leftarrow> getp jsonContent ''schema'';
              rrequired \<leftarrow> getp rb ''required'';
              fields \<leftarrow> flattenSchema schema;
              jexample \<leftarrow> getp jsonContent ''example'';
              Some (Some \<lparr>rb_required = truthy rrequired, contentType = first_key content,
                           rb_schema = fields,
                           rb_example = or_js jexample (opt_chain schema ''example'')\<rparr>)
            }
          }
        }
      })"

definition extractResponses :: "jsval \<Rightarrow> bool \<Rightarrow> string list \<Rightarrow> ResponseDef list option" where
  "extractResponses op isSwagger2 ws = do {
     resps0 \<leftarrow> getp op ''responses'';
     es \<leftarrow> Object_entries (or_js resps0 (JObj []));
     mapM (\<lambda>(code, resp). do {
             content \<leftarrow> getp resp ''content'';
             (fields, ex) \<leftarrow>
               (if truthy content then do {
                  let jsonContent = json_or_first_content content;
                  if truthy jsonContent then do {
                    jschema \<leftarrow> getp jsonContent ''schema'';
                    fs \<leftarrow> flattenSchema jschema;
                    jexample \<leftarrow> getp jsonContent ''example'';
                    Some (fs, or_js jexample (opt_chain jschema ''example''))
                  } else Some ([], JUndefined)
                } else do {
                  rschema \<leftarrow> getp resp ''schema'';
                  if truthy rschema then do { fs \<leftarrow> flattenSchema rschema; Some (fs, JUndefined) }
                  else Some ([], JUndefined)
                });
             rdescription \<leftarrow> getp resp ''description'';
             Some \<lparr>statusCode = code, resp_description = or_js rdescription (JStr ''''),
                   resp_schema = Some fields, resp_example = ex\<rparr>
           }) es
   }"

subsection \<open>Endpoints\<close>

definition methods :: "HttpMethod list" where
  "methods = [''GET'', ''POST'', ''PUT'', ''PATCH'', ''DELETE'']"

text \<open>
  One turn of the inner loop of \<open>extractEndpoints\<close>: \<open>Some None\<close> is \<open>continue\<close>,
  \<open>Some (Some e)\<close> is the endpoint pushed.
\<close>

definition extractOperation ::
    "jsval \<Rightarrow> bool \<Rightarrow> string list \<Rightarrow> string \<Rightarrow> jsval \<Rightarrow> HttpMethod \<Rightarrow> Endpoint option option" where
  "extractOperation doc isSwagger2 ws path pathItem method = do {
     op \<leftarrow> getp pathItem (toLowerCase method);
     if \<not> truthy op then Some None
     else do {
       opId \<leftarrow> getp op ''operationId'';
       let eid = (if truthy opId then opId
                  else JStr (method @ ''_'' @ replace_chars ''{}/'' ''_'' path));
       optags \<leftarrow> getp op ''tags'';
       let tgs = or_js optags (JArr [JStr ''default'']);
       params \<leftarrow> extractParameters op pathItem isSwagger2;
       reqBody \<leftarrow> extractRequestBody op isSwagger2;
       resps \<leftarrow> extractResponses op isSwagger2 ws;
       osummary \<leftarrow> getp op ''summary'';
       odescription \<leftarrow> getp op ''description'';
       tag0 \<leftarrow> getp tgs ''0'';
       osecurity \<leftarrow> getp op ''security'';
       dsecurity \<leftarrow> getp doc ''security'';
       odeprecated \<leftarrow> getp op ''deprecated'';
       Some (Some \<lparr>ep_id = eid, ep_method = method, ep_path = path,
                    summary = or_js osummary (JStr ''''),
                    ep_description = or_js odescription (or_js osummary (JStr '''')),
                    tag = or_js tag0 (JStr ''default''),
                    operationId = opId,
                    parameters = params,
                    requestBody = reqBody,
                    responses = resps,
                    auth_required = (truthy (opt_chain osecurity ''length'')
                                     \<or> truthy (opt_chain dsecurity ''length'')),
                    deprecated = Some (truthy odeprecated)\<rparr>)
     }
   }"

definition extractEndpoints :: "jsval \<Rightarrow> bool \<Rightarrow> string list \<Rightarrow> Endpoint list option" where
  "extractEndpoints doc isSwagger2 ws = do {
     paths0 \<leftarrow> getp doc ''paths'';
     es \<leftarrow> Object_entries (or_js paths0 (JObj []));
     rows \<leftarrow> mapM (\<lambda>(path, pathItem).
                      mapM (extractOperation doc isSwagger2 ws path pathItem) methods) es;
     Some (List.map_filter (\<lambda>e. e) (concat rows))
   }"

subsection \<open>Tags\<close>

text \<open>
  The second loop of \<open>buildTagGroups\<close>: a tag that the map does not have is set (at the
  end) and then found again by \<open>get\<close>; otherwise the group with that key receives the id.
\<close>

definition add_endpoint_to_group :: "(jsval \<times> TagGroup) list \<Rightarrow> Endpoint \<Rightarrow> (jsval \<times> TagGroup) list" where
  "add_endpoint_to_group tagMap ep =
     (if \<not> map_has tagMap (tag ep)
      then tagMap @ [(tag ep, \<lparr>tg_name = tag ep, tg_description = JUndefined,
                                endpointIds = [ep_id ep]\<rparr>)]
      else map_update tagMap (tag ep) (\<lambda>g. g\<lparr>endpointIds := endpointIds g @ [ep_id ep]\<rparr>))"

definition buildTagGroups :: "jsval \<Rightarrow> Endpoint list \<Rightarrow> TagGroup list option" where
  "buildTagGroups doc eps = do {
     tags0 \<leftarrow> getp doc ''tags'';
     tagDefs \<leftarrow> iterate (or_js tags0 (JArr []));
     defs \<leftarrow> mapM (\<lambda>td. do { n \<leftarrow> getp td ''name''; d \<leftarrow> getp td ''description'';
                              Some (n, \<lparr>tg_name = n, tg_description = d, endpointIds = []\<rparr>) })
               tagDefs;
     let tagMap = foldl (\<lambda>m (n, g). map_set m n g) [] defs;
     Some (map snd (foldl add_endpoint_to_group tagMap eps))
   }"

subsection \<open>Pagination and rate-limit detection\<close>

definition PAGINATION_KEYWORDS :: "string list" where
  "PAGINATION_KEYWORDS =
     [''page'', ''limit'', ''offset'', ''cursor'', ''after'', ''before'', ''per_page'',
      ''pageSize'', ''page_size'']"

text \<open>The body of the inner loop of \<open>detectPagination\<close>, on the state \<open>(hints, seen)\<close>.\<close>

definition detectPagination_step ::
    "PaginationHint list \<times> string list \<Rightarrow> Parameter \<Rightarrow> (PaginationHint list \<times> string list) option" where
  "detectPagination_step st p =
     (case st of (hints, seen) \<Rightarrow> do {
        lowerName \<leftarrow> call_toLowerCase (param_name p);
        if lowerName \<in> set PAGINATION_KEYWORDS \<and> lowerName \<notin> set seen then do {
          let pType = (if lowerName \<in> set [''cursor'', ''after'', ''before''] then pg_cursor
                       else if lowerName \<in> set [''offset''] then pg_offset else pg_page);
          pname \<leftarrow> tostr (param_name p);
          Some (hints @ [\<lparr>pg_type = pType, pg_parameters = [param_name p],
                          pg_description = or_js (param_description p)
                                             (JStr (''Pagination parameter: '' @ pname))\<rparr>],
                seen @ [lowerName])
        } else Some (hints, seen)
      })"

fun foldM :: "('s \<Rightarrow> 'a \<Rightarrow> 's option) \<Rightarrow> 's \<Rightarrow> 'a list \<Rightarrow> 's option" where
  "foldM f s [] = Some s"
| "foldM f s (x # xs) = do { s' \<leftarrow> f s x; foldM f s' xs }"

definition detectPagination :: "Endpoint list \<Rightarrow> PaginationHint list option" where
  "detectPagination eps =
     map_option fst (foldM detectPagination_step ([], []) (concat (map parameters eps)))"

fun detectRateLimits :: "Endpoint list \<Rightarrow> RateLimitHint list" where
  "detectRateLimits [] = []"
| "detectRateLimits (ep # eps) =
     (case find (\<lambda>r. statusCode r = ''429'') (responses ep) of
        Some r \<Rightarrow> [\<lparr>rl_statusCode = 429, retryHeader = ''Retry-After'',
                     rl_description = or_js (resp_description r)
                        (JStr (''Rate limit exceeded '' @ em_dash @ '' wait and retry.''))\<rparr>]
      | None \<Rightarrow> detectRateLimits eps)"

subsection \<open>parseOpenApiSpec\<close>

datatype error = Error string | TypeError

text \<open>The body of \<open>parseOpenApiSpec\<close> after the document is decoded.\<close>

definition parseDocument :: "platform \<Rightarrow> jsval \<Rightarrow> ParseResult option" where
  "parseDocument P doc = do {
     swagger \<leftarrow> getp doc ''swagger'';
     let isSwagger2 = truthy swagger;
     info0 \<leftarrow> getp doc ''info'';
     let info = or_js info0 (JObj []);
     url \<leftarrow> extractBaseUrl P doc isSwagger2;
     let tds = (if \<not> truthy url
                then [''TODO: Base URL could not be determined '' @ em_dash @
                      '' please set it manually.'']
                else []);
     (a, ws) \<leftarrow> extractAuth doc isSwagger2 [];
     eps \<leftarrow> extractEndpoints doc isSwagger2 ws;
     tgs \<leftarrow> buildTagGroups doc eps;
     pgs \<leftarrow> detectPagination eps;
     let rls = detectRateLimits eps;
     ititle \<leftarrow> getp info ''title'';
     idescription \<leftarrow> getp info ''description'';
     iversion \<leftarrow> getp info ''version'';
     Some \<lparr>spec = \<lparr>title = or_js ititle (JStr ''Untitled API''),
                   description = or_js idescription (JStr ''''),
                   version = or_js iversion (JStr ''1.0.0''),
                   baseUrl = or_js url (JStr ''https://api.example.com''),
                   auth = a, endpoints = eps, tags = tgs,
                   paginationHints = pgs, rateLimitHints = rls,
                   sourceType = openapi\<rparr>,
           warnings = ws, todos = tds\<rparr>
   }"

definition decode :: "platform \<Rightarrow> string \<Rightarrow> jsval option" where
  "decode P input = (case JSON_parse P input of Some doc \<Rightarrow> Some doc | None \<Rightarrow> yaml_load P input)"

definition parseOpenApiSpec :: "platform \<Rightarrow> string \<Rightarrow> error + ParseResult" where
  "parseOpenApiSpec P input =
     (case decode P input of
        None \<Rightarrow> Inl (Error ''Could not parse input as JSON or YAML'')
      | Some doc \<Rightarrow> (case parseDocument P doc of None \<Rightarrow> Inl TypeError | Some r \<Rightarrow> Inr r))"

section \<open>Regular expressions\<close>

text \<open>
  The text parser is driven by regular expressions. They are modelled by a backtracking
  matcher with the priorities of the JavaScript one: \<open>rmatch\<close> returns the states after
  every way of matching, the preferred way first (alternatives left to right, quantifiers
  greedy, an iteration of \<open>*\<close> that consumes nothing is not repeated). A state is the
  character before the position (for \<open>\\b\<close> and \<open>^\<close>), the rest of the input and the
  capture groups.
\<close>

datatype cls_item = Ch char | Rng char char | Space | Digit

datatype regex =
    Lit char
  | AnyChar
  | Cls bool "cls_item list"
  | Seq regex regex
  | Alt regex regex
  | Star regex
  | Opt regex
  | Group nat regex
  | Bol
  | Eol
  | WordB
  | Eps

datatype flags = Flags (ignoreCase: bool) (multiline: bool)

definition is_space :: "char \<Rightarrow> bool" where
  "is_space c = (c \<in> set [CHR '' '', CHR 0x09, CHR 0x0A, CHR 0x0B, CHR 0x0C, CHR 0x0D])"

definition is_line_terminator :: "char \<Rightarrow> bool" where
  "is_line_terminator c = (c = CHR 0x0A \<or> c = CHR 0x0D)"

definition in_range :: "char \<Rightarrow> char \<Rightarrow> char \<Rightarrow> bool" where
  "in_range lo hi c = ((of_char lo :: nat) \<le> of_char c \<and> (of_char c :: nat) \<le> of_char hi)"

definition is_word_char :: "char \<Rightarrow> bool" where
  "is_word_char c = (in_range CHR ''a'' CHR ''z'' c \<or> in_range CHR ''A'' CHR ''Z'' c
                     \<or> in_range CHR ''0'' CHR ''9'' c \<or> c = CHR ''_'')"

fun in_item :: "cls_item \<Rightarrow> char \<Rightarrow> bool" where
  "in_item (Ch a) c = (a = c)"
| "in_item (Rng lo hi) c = in_range lo hi c"
| "in_item Space c = is_space c"
| "in_item Digit c = in_range CHR ''0'' CHR ''9'' c"

definition item_matches :: "flags \<Rightarrow> cls_item \<Rightarrow> char \<Rightarrow> bool" where
  "item_matches fl it c =
     (if ignoreCase fl then in_item it (lower_char c) \<or> in_item it (upper_char c) else in_item it c)"

definition char_matches :: "flags \<Rightarrow> regex \<Rightarrow> char \<Rightarrow> bool" where
  "char_matches fl r c =
     (case r of
        Lit a \<Rightarrow> item_matches fl (Ch a) c
      | AnyChar \<Rightarrow> \<not> is_line_terminator c
      | Cls neg items \<Rightarrow> (list_ex (\<lambda>it. item_matches fl it c) items \<noteq> neg)
      | _ \<Rightarrow> False)"

type_synonym captures = "(nat \<times> string) list"
type_synonym mstate = "char option \<times> string \<times> captures"

definition at_word_boundary :: "char option \<Rightarrow> string \<Rightarrow> bool" where
  "at_word_boundary p xs =
     ((case p of None \<Rightarrow> False | Some c \<Rightarrow> is_word_char c)
      \<noteq> (case xs of [] \<Rightarrow> False | x # _ \<Rightarrow> is_word_char x))"

function rmatch :: "flags \<Rightarrow> regex \<Rightarrow> char option \<Rightarrow> string \<Rightarrow> captures \<Rightarrow> mstate list" where
  "rmatch fl (Lit a) p xs caps =
     (case xs of [] \<Rightarrow> [] | x # xs' \<Rightarrow> if char_matches fl (Lit a) x then [(Some x, xs', caps)] else [])"
| "rmatch fl AnyChar p xs caps =
     (case xs of [] \<Rightarrow> [] | x # xs' \<Rightarrow> if char_matches fl AnyChar x then [(Some x, xs', caps)] else [])"
| "rmatch fl (Cls neg items) p xs caps =
     (case xs of [] \<Rightarrow> []
      | x # xs' \<Rightarrow> if char_matches fl (Cls neg items) x then [(Some x, xs', caps)] else [])"
| "rmatch fl (Seq r1 r2) p xs caps =
     concat (map (\<lambda>(p', xs', caps'). rmatch fl r2 p' xs' caps') (rmatch fl r1 p xs caps))"
| "rmatch fl (Alt r1 r2) p xs caps = rmatch fl r1 p xs caps @ rmatch fl r2 p xs caps"
| "rmatch fl (Star r) p xs caps =
     concat (map (\<lambda>(p', xs', caps').
                    if length xs' < length xs then rmatch fl (Star r) p' xs' caps' else [])
                 (rmatch fl r p xs caps))
     @ [(p, xs, caps)]"
| "rmatch fl (Opt r) p xs caps = rmatch fl r p xs caps @ [(p, xs, caps)]"
| "rmatch fl (Group n r) p xs caps =
     map (\<lambda>(p', xs', caps'). (p', xs', (n, take (length xs - length xs') xs) # caps'))
         (rmatch fl r p xs caps)"
| "rmatch fl Bol p xs caps =
     (case p of None \<Rightarrow> [(p, xs, caps)]
      | Some c \<Rightarrow> if multiline fl \<and> is_line_terminator c then [(p, xs, caps)] else [])"
| "rmatch fl Eol p xs caps =
     (case xs of [] \<Rightarrow> [(p, xs, caps)]
      | x # _ \<Rightarrow> if multiline fl \<and> is_line_terminator x then [(p, xs, caps)] else [])"
| "rmatch fl WordB p xs caps = (if at_word_boundary p xs then [(p, xs, caps)] else [])"
| "rmatch fl Eps p xs caps = [(p, xs, caps)]"
  by pat_completeness auto
termination
  by (relation "(\<lambda>(fl, r, p, xs, caps). size r) <*mlex*> measure (\<lambda>(fl, r, p, xs, caps). length xs)")
     (auto simp: wf_mlex mlex_less mlex_leq)

definition Plus :: "regex \<Rightarrow> regex" where
  "Plus r = Seq r (Star r)"

fun lits :: "string \<Rightarrow> regex" where
  "lits [] = Eps"
| "lits [c] = Lit c"
| "lits (c # cs) = Seq (Lit c) (lits cs)"

fun alts :: "regex list \<Rightarrow> regex" where
  "alts [] = Eps"
| "alts [r] = r"
| "alts (r # rs) = Alt r (alts rs)"

fun seqs :: "regex list \<Rightarrow> regex" where
  "seqs [] = Eps"
| "seqs [r] = r"
| "seqs (r # rs) = Seq r (seqs rs)"

record rmatch_result =
  m_index :: nat
  m_text :: string
  m_groups :: captures
  m_prev :: "char option"
  m_rest :: string

fun search :: "flags \<Rightarrow> regex \<Rightarrow> char option \<Rightarrow> string \<Rightarrow> nat \<Rightarrow> rmatch_result option" where
  "search fl r p xs i =
     (case rmatch fl r p xs [] of
        (p', xs', caps) # _ \<Rightarrow>
          Some \<lparr>m_index = i, m_text = take (length xs - length xs') xs, m_groups = caps,
                m_prev = p', m_rest = xs'\<rparr>
      | [] \<Rightarrow> (case xs of [] \<Rightarrow> None | x # xs' \<Rightarrow> search fl r (Some x) xs' (Suc i)))"

text \<open>
  \<open>re.exec\<close> in a \<open>while\<close> loop with the \<open>g\<close> flag, and \<open>s.match(re)\<close> with the
  \<open>g\<close> flag: the successive matches, each search starting where the last match ended.
  None of the expressions used this way can match the empty string; the guard stops the
  model where JavaScript would not advance.
\<close>

function match_all :: "flags \<Rightarrow> regex \<Rightarrow> char option \<Rightarrow> string \<Rightarrow> nat \<Rightarrow> rmatch_result list" where
  "match_all fl r p xs i =
     (case search fl r p xs i of
        None \<Rightarrow> []
      | Some m \<Rightarrow>
          if length (m_rest m) < length xs
          then m # match_all fl r (m_prev m) (m_rest m) (m_index m + length (m_text m))
          else [m])"
  by pat_completeness auto
termination
  by (relation "measure (\<lambda>(fl, r, p, xs, i). length xs)") auto

declare match_all.simps [simp del]

text \<open>\<open>re.test(s)\<close>, \<open>s.match(re)\<close> without the \<open>g\<close> flag, and a capture group of a match.\<close>

definition re_match :: "flags \<Rightarrow> regex \<Rightarrow> string \<Rightarrow> rmatch_result option" where
  "re_match fl r s = search fl r None s 0"

definition re_test :: "flags \<Rightarrow> regex \<Rightarrow> string \<Rightarrow> bool" where
  "re_test fl r s = (re_match fl r s \<noteq> None)"

definition re_exec_all :: "flags \<Rightarrow> regex \<Rightarrow> string \<Rightarrow> rmatch_result list" where
  "re_exec_all fl r s = match_all fl r None s 0"

text \<open>A group that took no part in the match reads as \<open>undefined\<close>, here the empty string.\<close>

definition group :: "rmatch_result \<Rightarrow> nat \<Rightarrow> string" where
  "group m n = (case map_of (m_groups m) n of Some g \<Rightarrow> g | None \<Rightarrow> [])"

text \<open>\<open>s.replace(re, by)\<close> without the \<open>g\<close> flag.\<close>

definition replace_first :: "flags \<Rightarrow> regex \<Rightarrow> string \<Rightarrow> string \<Rightarrow> string" where
  "replace_first fl r by s =
     (case re_match fl r s of
        None \<Rightarrow> s
      | Some m \<Rightarrow> take (m_index m) s @ by @ drop (m_index m + length (m_text m)) s)"

definition trim :: "string \<Rightarrow> string" where
  "trim s = rev (dropWhile is_space (rev (dropWhile is_space s)))"

fun split_on :: "char \<Rightarrow> string \<Rightarrow> string list" where
  "split_on c [] = [[]]"
| "split_on c (x # xs) =
     (if x = c then [] # split_on c xs
      else (case split_on c xs of [] \<Rightarrow> [[x]] | w # ws \<Rightarrow> (x # w) # ws))"

definition substring :: "string \<Rightarrow> nat \<Rightarrow> nat \<Rightarrow> string" where
  "substring s a b = take (min b (length s) - a) (drop a s)"

definition sp :: regex where
  "sp = Cls False [Space]"

definition single_quote :: char where
  "single_quote = CHR 0x27"

definition double_quote :: char where
  "double_quote = CHR 0x22"

definition backtick :: char where
  "backtick = CHR 0x60"

definition alnum :: "cls_item list" where
  "alnum = [Rng CHR ''a'' CHR ''z'', Rng CHR ''A'' CHR ''Z'', Rng CHR ''0'' CHR ''9'']"

section \<open>The free-text documentation parser (text-parser.ts)\<close>

subsection \<open>Title, description, base URL\<close>

definition non_blank_lines :: "string \<Rightarrow> string list" where
  "non_blank_lines s = filter (\<lambda>l. length (trim l) > 0) (split_on CHR 0x0A s)"

text \<open>\<open>/^#\s+(.+)$/m\<close>\<close>

definition h1_re :: regex where
  "h1_re = seqs [Bol, Lit CHR ''#'', Plus sp, Group 1 (Plus AnyChar), Eol]"

definition extractTitle :: "string \<Rightarrow> string option" where
  "extractTitle s =
     (case re_match (Flags False True) h1_re s of
        Some h1 \<Rightarrow> Some (trim (group h1 1))
      | None \<Rightarrow>
          (let lines = non_blank_lines s
           in if length lines > 0 \<and> length (hd lines) < 80 then Some (trim (hd lines)) else None))"

definition extractDescription :: "string \<Rightarrow> string" where
  "extractDescription s = substring (join '' '' (take 3 (non_blank_lines s))) 0 200"

text \<open>\<open>/(?:base\s*url|api\s*url|endpoint|server|host)[:\s]*\n?\s*(https?:\/\/[^\s\n"'`<>]+)/i\<close>\<close>

definition urlPattern :: regex where
  "urlPattern =
     seqs [alts [seqs [lits ''base'', Star sp, lits ''url''],
                 seqs [lits ''api'', Star sp, lits ''url''],
                 lits ''endpoint'', lits ''server'', lits ''host''],
           Star (Cls False [Ch CHR '':'', Space]),
           Opt (Lit CHR 0x0A),
           Star sp,
           Group 1 (seqs [lits ''http'', Opt (Lit CHR ''s''), lits ''://'',
                          Plus (Cls True [Space, Ch CHR 0x0A, Ch double_quote, Ch single_quote,
                                          Ch backtick, Ch CHR ''<'', Ch CHR ''>''])])]"

text \<open>\<open>/(https?:\/\/[a-zA-Z0-9][-a-zA-Z0-9.]*(?:\/api)?(?:\/v\d+)?)/\<close>\<close>

definition anyUrl_re :: regex where
  "anyUrl_re =
     Group 1 (seqs [lits ''http'', Opt (Lit CHR ''s''), lits ''://'',
                    Cls False alnum,
                    Star (Cls False (Ch CHR ''-'' # alnum @ [Ch CHR ''.''])),
                    Opt (lits ''/api''),
                    Opt (Seq (lits ''/v'') (Plus (Cls False [Digit])))])"

text \<open>\<open>/\/+$/\<close>\<close>

definition trailing_slashes :: regex where
  "trailing_slashes = Seq (Plus (Lit CHR ''/'')) Eol"

definition extractBaseUrl_text :: "string \<Rightarrow> string option" where
  "extractBaseUrl_text s =
     (case re_match (Flags True False) urlPattern s of
        Some m \<Rightarrow> Some (replace_first (Flags False False) trailing_slashes [] (group m 1))
      | None \<Rightarrow>
          (case re_match (Flags False False) anyUrl_re s of
             Some anyUrl \<Rightarrow> Some (replace_first (Flags False False) trailing_slashes [] (group anyUrl 1))
           | None \<Rightarrow> None))"

subsection \<open>Auth\<close>

text \<open>\<open>/bearer\s*token/i\<close>, \<open>/authorization:\s*bearer/i\<close>, \<open>/api[_-]?key/i\<close>,
  \<open>/x-api-key/i\<close> and \<open>/(x-api-key|api[_-]?key)/i\<close>\<close>

definition bearer_token_re :: regex where
  "bearer_token_re = seqs [lits ''bearer'', Star sp, lits ''token'']"

definition authorization_bearer_re :: regex where
  "authorization_bearer_re = seqs [lits ''authorization:'', Star sp, lits ''bearer'']"

definition api_key_re :: regex where
  "api_key_re = seqs [lits ''api'', Opt (Cls False [Ch CHR ''_'', Ch CHR ''-'']), lits ''key'']"

definition x_api_key_re :: regex where
  "x_api_key_re = lits ''x-api-key''"

definition header_re :: regex where
  "header_re = Group 1 (Alt x_api_key_re api_key_re)"

definition noAuth :: AuthScheme where
  "noAuth = \<lparr>auth_type = unknown, headerName = JUndefined, queryParamName = JUndefined,
             scheme = JUndefined, auth_description = JUndefined, flows = JUndefined\<rparr>"

definition extractAuth_text :: "string \<Rightarrow> string list \<Rightarrow> AuthScheme \<times> string list" where
  "extractAuth_text s ws =
     (let lower = toLowerCase s; ci = Flags True False in
      if re_test ci bearer_token_re s \<or> re_test ci authorization_bearer_re s then
        (noAuth\<lparr>auth_type := bearer, scheme := JStr ''bearer'',
                auth_description := JStr ''Bearer token authentication (detected from docs)''\<rparr>, ws)
      else if re_test ci api_key_re s \<or> re_test ci x_api_key_re s then
        (let headerMatch = re_match ci header_re s
         in (noAuth\<lparr>auth_type := apiKey,
                     headerName := JStr (case headerMatch of
                                           None \<Rightarrow> ''X-API-Key''
                                         | Some m \<Rightarrow> if group m 1 \<noteq> [] then group m 1
                                                     else ''X-API-Key''),
                     auth_description := JStr ''API Key authentication (detected from docs)''\<rparr>,
             ws))
      else if str_includes lower ''basic auth'' then
        (noAuth\<lparr>auth_type := basic, scheme := JStr ''basic'',
                auth_description := JStr ''Basic authentication (detected from docs)''\<rparr>, ws)
      else if str_includes lower ''oauth'' then
        (noAuth\<lparr>auth_type := oauth2,
                auth_description := JStr ''OAuth 2.0 (detected from docs)''\<rparr>, ws)
      else
        (noAuth\<lparr>auth_type := unknown,
                auth_description := JStr (''Authentication method not detected '' @ em_dash @
                                          '' please specify.'')\<rparr>,
         ws @ [''Authentication method could not be determined from the text.'']))"

subsection \<open>Endpoints\<close>

definition HTTP_METHODS :: "HttpMethod list" where
  "HTTP_METHODS = [''GET'', ''POST'', ''PUT'', ''PATCH'', ''DELETE'']"

text \<open>\<open>(GET|POST|PUT|PATCH|DELETE)\<close> and \<open>(\/[a-zA-Z0-9_\-{}/:.]+)\<close>\<close>

definition method_re :: regex where
  "method_re = alts (map lits [''GET'', ''POST'', ''PUT'', ''PATCH'', ''DELETE''])"

definition path_re :: regex where
  "path_re =
     Seq (Lit CHR ''/'')
         (Plus (Cls False (alnum @ [Ch CHR ''_'', Ch CHR ''-'', Ch CHR ''{'', Ch CHR ''}'',
                                    Ch CHR ''/'', Ch CHR '':'', Ch CHR ''.''])))"

text \<open>The three patterns, each with the flags \<open>gi\<close>:
  \<open>/\b(GET|...)\s+(\/[...]+)/\<close>, the same between backticks, and
  \<open>/\*\*(GET|...)\*\*\s+(\/[...]+)/\<close>.\<close>

definition patterns :: "regex list" where
  "patterns =
     [seqs [WordB, Group 1 method_re, Plus sp, Group 2 path_re],
      seqs [Lit backtick, Group 1 method_re, Plus sp, Group 2 path_re, Lit backtick],
      seqs [lits ''**'', Group 1 method_re, lits ''**'', Plus sp, Group 2 path_re]]"

text \<open>\<open>/curl\s+(?:-X\s+)?(GET|POST|PUT|PATCH|DELETE)?\s*['"]?(https?:\/\/[^\s'"]+)/gi\<close>\<close>

definition curlPattern :: regex where
  "curlPattern =
     seqs [lits ''curl'', Plus sp,
           Opt (Seq (lits ''-X'') (Plus sp)),
           Opt (Group 1 method_re),
           Star sp,
           Opt (Cls False [Ch single_quote, Ch double_quote]),
           Group 2 (seqs [lits ''http'', Opt (Lit CHR ''s''), lits ''://'',
                          Plus (Cls True [Space, Ch single_quote, Ch double_quote])])]"

definition extractContextAround :: "string \<Rightarrow> nat \<Rightarrow> nat \<Rightarrow> string" where
  "extractContextAround s index radius =
     substring s (index - radius) (min (length s) (index + radius))"

text \<open>\<open>/#+\s+(.+)/\<close>\<close>

definition heading_re :: regex where
  "heading_re = seqs [Plus (Lit CHR ''#''), Plus sp, Group 1 (Plus AnyChar)]"

definition extractSummaryFromContext :: "string \<Rightarrow> string \<Rightarrow> string \<Rightarrow> string" where
  "extractSummaryFromContext context method path =
     (case re_match (Flags False False) heading_re context of
        Some headingMatch \<Rightarrow> trim (group headingMatch 1)
      | None \<Rightarrow> method @ '' '' @ path)"

text \<open>\<open>/\{([^}]+)\}/g\<close>\<close>

definition path_param_re :: regex where
  "path_param_re = seqs [Lit CHR ''{'', Group 1 (Plus (Cls True [Ch CHR ''}''])), Lit CHR ''}'']"

definition extractParamsFromContext :: "string \<Rightarrow> string \<Rightarrow> Parameter list" where
  "extractParamsFromContext path context =
     map (\<lambda>m. let name = replace_chars ''{}'' [] (m_text m)
               in \<lparr>param_name = JStr name, param_in = JStr ''path'', param_required = True,
                   param_description = JStr (''Path parameter: '' @ name),
                   param_type = JStr ''string'', param_default = JUndefined,
                   param_enum = JUndefined, param_example = JUndefined\<rparr>)
         (re_exec_all (Flags False False) path_param_re path)"

definition capitalize :: "string \<Rightarrow> string" where
  "capitalize s = toUpperCase (take 1 s) @ drop 1 s"

definition guessTag :: "string \<Rightarrow> string" where
  "guessTag path =
     (let segments = filter (\<lambda>s. s \<noteq> [] \<and> take 1 s \<noteq> ''{'' \<and> take 1 s \<noteq> '':'')
                            (split_on CHR ''/'' path)
      in if length segments \<ge> 2 then capitalize (segments ! 1)
         else if length segments = 1 then capitalize (segments ! 0)
         else ''default'')"

definition slug :: "string \<Rightarrow> string \<Rightarrow> string" where
  "slug method path = toLowerCase method @ ''_'' @ replace_chars ''{}/:.'' ''_'' path"

definition ok_response :: ResponseDef where
  "ok_response = \<lparr>statusCode = ''200'', resp_description = JStr ''Successful response'',
                  resp_schema = None, resp_example = JUndefined\<rparr>"

text \<open>The body of the \<open>while\<close> loop over the matches of one pattern, on \<open>(endpoints, seen)\<close>.\<close>

definition pattern_step :: "string \<Rightarrow> Endpoint list \<times> string list \<Rightarrow> rmatch_result \<Rightarrow> Endpoint list \<times> string list" where
  "pattern_step s st m =
     (case st of (eps, seen) \<Rightarrow>
        let method = toUpperCase (group m 1);
            path = group m 2;
            key = method @ '' '' @ path
        in if key \<in> set seen \<or> method \<notin> set HTTP_METHODS then (eps, seen)
           else
             (let context = extractContextAround s (m_index m) 500;
                  params = extractParamsFromContext path context;
                  tg = guessTag path
              in (eps @ [\<lparr>ep_id = JStr (slug method path), ep_method = method, ep_path = path,
                           summary = JStr (extractSummaryFromContext context method path),
                           ep_description = JStr (substring context 0 200),
                           tag = JStr tg, operationId = JUndefined, parameters = params,
                           requestBody = None, responses = [ok_response],
                           auth_required = True, deprecated = None\<rparr>],
                  seen @ [key])))"

text \<open>The body of the loop over the \<open>curl\<close> examples.\<close>

definition curl_step :: "platform \<Rightarrow> Endpoint list \<times> string list \<Rightarrow> rmatch_result \<Rightarrow> Endpoint list \<times> string list" where
  "curl_step P st curlMatch =
     (case st of (eps, seen) \<Rightarrow>
        let method = toUpperCase (if group curlMatch 1 \<noteq> [] then group curlMatch 1 else ''GET'');
            fullUrl = group curlMatch 2
        in case URL_pathname P fullUrl of
             None \<Rightarrow> (eps, seen)
           | Some path \<Rightarrow>
               (let key = method @ '' '' @ path
                in if key \<in> set seen then (eps, seen)
                   else
                     (let tg = guessTag path
                      in (eps @ [\<lparr>ep_id = JStr (slug method path), ep_method = method,
                                   ep_path = path, summary = JStr (method @ '' '' @ path),
                                   ep_description = JStr ''Extracted from curl example'',
                                   tag = JStr tg, operationId = JUndefined, parameters = [],
                                   requestBody = None, responses = [ok_response],
                                   auth_required = True, deprecated = None\<rparr>],
                          seen @ [key]))))"

definition pattern_pass :: "string \<Rightarrow> Endpoint list \<times> string list" where
  "pattern_pass s =
     foldl (\<lambda>st pattern. foldl (pattern_step s) st (re_exec_all (Flags True False) pattern s))
           ([], []) patterns"

definition extractEndpoints_text :: "platform \<Rightarrow> string \<Rightarrow> Endpoint list" where
  "extractEndpoints_text P s =
     fst (foldl (curl_step P) (pattern_pass s) (re_exec_all (Flags True False) curlPattern s))"

subsection \<open>Tags, pagination, rate limits\<close>

definition buildTagGroups_text :: "Endpoint list \<Rightarrow> TagGroup list" where
  "buildTagGroups_text eps =
     map snd
       (foldl (\<lambda>tagMap ep.
                 let tg = or_js (tag ep) (JStr ''default'');
                     tagMap' = (if \<not> map_has tagMap tg
                                then map_set tagMap tg
                                       \<lparr>tg_name = tg, tg_description = JUndefined, endpointIds = []\<rparr>
                                else tagMap)
                 in map_update tagMap' tg (\<lambda>g. g\<lparr>endpointIds := endpointIds g @ [ep_id ep]\<rparr>))
              [] eps)"

definition word_re :: "string \<Rightarrow> regex" where
  "word_re w = seqs [WordB, lits w, WordB]"

definition extractPaginationHints :: "string \<Rightarrow> PaginationHint list" where
  "extractPaginationHints s =
     (let lower = toLowerCase s; cs = Flags False False in
      (if re_test cs (word_re ''cursor'') lower \<or> re_test cs (word_re ''after'') lower
       then [\<lparr>pg_type = pg_cursor, pg_parameters = [JStr ''cursor''],
               pg_description = JStr ''Cursor-based pagination detected''\<rparr>] else [])
      @ (if re_test cs (word_re ''offset'') lower \<and> re_test cs (word_re ''limit'') lower
         then [\<lparr>pg_type = pg_offset, pg_parameters = [JStr ''offset'', JStr ''limit''],
                 pg_description = JStr ''Offset-based pagination detected''\<rparr>] else [])
      @ (if re_test cs (word_re ''page'') lower \<and> re_test cs (word_re ''per_page'') lower
         then [\<lparr>pg_type = pg_page, pg_parameters = [JStr ''page'', JStr ''per_page''],
                 pg_description = JStr ''Page-based pagination detected''\<rparr>] else []))"

text \<open>\<open>/429|rate.?limit|too many requests/i\<close>\<close>

definition rate_limit_re :: regex where
  "rate_limit_re =
     alts [lits ''429'', seqs [lits ''rate'', Opt AnyChar, lits ''limit''], lits ''too many requests'']"

definition extractRateLimitHints :: "string \<Rightarrow> RateLimitHint list" where
  "extractRateLimitHints s =
     (if re_test (Flags True False) rate_limit_re s
      then [\<lparr>rl_statusCode = 429, retryHeader = ''Retry-After'',
              rl_description = JStr ''Rate limiting detected in docs''\<rparr>]
      else [])"

subsection \<open>parseTextDocs\<close>

text \<open>\<open>!s\<close> and \<open>s || d\<close> for a value that is a string or \<open>null\<close>.\<close>

definition str_or :: "string option \<Rightarrow> string \<Rightarrow> string" where
  "str_or s d = (case s of None \<Rightarrow> d | Some t \<Rightarrow> if t = [] then d else t)"

definition falsy_str :: "string option \<Rightarrow> bool" where
  "falsy_str s = (case s of None \<Rightarrow> True | Some t \<Rightarrow> t = [])"

definition parseTextDocs :: "platform \<Rightarrow> string \<Rightarrow> ParseResult" where
  "parseTextDocs P input =
     (let url = extractBaseUrl_text input;
          tds1 = (if falsy_str url
                  then [''TODO: Base URL could not be determined from the text '' @ em_dash @
                        '' please provide it.'']
                  else []);
          (a, ws1) = extractAuth_text input [];
          eps = extractEndpoints_text P input;
          ws2 = (if length eps = 0
                 then ws1 @ [''No endpoints could be extracted from the documentation text.'']
                 else ws1);
          tds2 = (if length eps = 0
                  then tds1 @ [''TODO: Manually add endpoint definitions '' @ em_dash @
                               '' the parser could not detect any.'']
                  else tds1);
          tgs = buildTagGroups_text eps;
          pgs = extractPaginationHints input;
          rls = extractRateLimitHints input
      in \<lparr>spec = \<lparr>title = JStr (str_or (extractTitle input) ''Untitled API''),
                    description = JStr (extractDescription input),
                    version = JStr ''1.0.0'',
                    baseUrl = JStr (str_or url ''https://api.example.com''),
                    auth = a, endpoints = eps, tags = tgs,
                    paginationHints = pgs, rateLimitHints = rls,
                    sourceType = text_source\<rparr>,
            warnings = ws2, todos = tds2\<rparr>)"

section \<open>Facts about the model shared by the properties below\<close>

lemma getp_Some_iff: "getp v k = Some x \<longleftrightarrow> \<not> nullish v \<and> x = js_prop v k"
  by (auto simp: getp_def)

lemma parseDocument_SomeD:
  assumes "parseDocument P doc = Some r"
  shows "\<not> nullish doc \<and>
         (\<exists>url a ws eps tgs pgs.
            extractBaseUrl P doc (truthy (js_prop doc ''swagger'')) = Some url \<and>
            extractAuth doc (truthy (js_prop doc ''swagger'')) [] = Some (a, ws) \<and>
            extractEndpoints doc (truthy (js_prop doc ''swagger'')) ws = Some eps \<and>
            buildTagGroups doc eps = Some tgs \<and>
            detectPagination eps = Some pgs \<and>
            baseUrl (spec r) = or_js url (JStr ''https://api.example.com'') \<and>
            auth (spec r) = a \<and> endpoints (spec r) = eps \<and> tags (spec r) = tgs \<and>
            paginationHints (spec r) = pgs \<and>
            rateLimitHints (spec r) = detectRateLimits eps \<and>
            warnings r = ws \<and>
            todos r = (if \<not> truthy url
                       then [''TODO: Base URL could not be determined '' @ em_dash @
                             '' please set it manually.'']
                       else []))"
  using assms unfolding parseDocument_def
  by (auto simp: bind_eq_Some_conv getp_Some_iff Let_def split: prod.splits)

lemma parseOpenApiSpec_Inr_iff:
  "parseOpenApiSpec P input = Inr r \<longleftrightarrow>
     (\<exists>doc. decode P input = Some doc \<and> parseDocument P doc = Some r)"
  by (auto simp: parseOpenApiSpec_def split: option.splits)

section \<open>Example inputs\<close>

text \<open>
  The round-trip document of the specification, as text and as the value \<open>JSON.parse\<close>
  gives for it.
\<close>

definition roundtrip_input :: string where
  "roundtrip_input = ''{\"openapi\":\"3.0.0\",\"info\":{\"title\":\"T\",\"version\":\"1\"},\"servers\":[{\"url\":\"https://x.io\"}],\"paths\":{\"/a\":{\"get\":{\"operationId\":\"getA\",\"responses\":{\"200\":{\"description\":\"ok\"}}}}}}''"

definition roundtrip_document :: jsval where
  "roundtrip_document =
     JObj [(''openapi'', JStr ''3.0.0''),
           (''info'', JObj [(''title'', JStr ''T''), (''version'', JStr ''1'')]),
           (''servers'', JArr [JObj [(''url'', JStr ''https://x.io'')]]),
           (''paths'', JObj [(''/a'', JObj [(''get'',
              JObj [(''operationId'', JStr ''getA''),
                    (''responses'', JObj [(''200'', JObj [(''description'', JStr ''ok'')])])])])])]"

text \<open>
  A valid OpenAPI 3 document whose operation takes its parameter by reference, as text
  and as decoded.
\<close>

definition ref_parameter_input :: string where
  "ref_parameter_input = ''{\"openapi\":\"3.0.0\",\"paths\":{\"/a\":{\"get\":{\"parameters\":[{\"$ref\":\"#/components/parameters/limit\"}],\"responses\":{\"200\":{\"description\":\"ok\"}}}}}}''"

definition ref_parameter_document :: jsval where
  "ref_parameter_document =
     JObj [(''openapi'', JStr ''3.0.0''),
           (''paths'', JObj [(''/a'', JObj [(''get'',
              JObj [(''parameters'', JArr [JObj [(''$ref'', JStr ''#/components/parameters/limit'')]]),
                    (''responses'', JObj [(''200'', JObj [(''description'', JStr ''ok'')])])])])])]"

text \<open>A Swagger 2 document with a host, two schemes and no base path.\<close>

definition swagger2_example_input :: string where
  "swagger2_example_input = ''{\"swagger\":\"2.0\",\"host\":\"api.example.org\",\"schemes\":[\"http\",\"https\"]}''"

definition swagger2_example :: jsval where
  "swagger2_example =
     JObj [(''swagger'', JStr ''2.0''), (''host'', JStr ''api.example.org''),
           (''schemes'', JArr [JStr ''http'', JStr ''https''])]"

text \<open>An OpenAPI 3 document with two operations that both declare a 429 response.\<close>

definition rate_limited_input :: string where
  "rate_limited_input = ''{\"openapi\":\"3.0.0\",\"paths\":{\"/a\":{\"get\":{\"responses\":{\"200\":{\"description\":\"ok\"},\"429\":{\"description\":\"slow down\"}}},\"post\":{\"responses\":{\"429\":{}}}}}}''"

definition rate_limited_document :: jsval where
  "rate_limited_document =
     JObj [(''openapi'', JStr ''3.0.0''),
           (''paths'', JObj [(''/a'', JObj [
              (''get'', JObj [(''responses'', JObj [
                 (''200'', JObj [(''description'', JStr ''ok'')]),
                 (''429'', JObj [(''description'', JStr ''slow down'')])])]),
              (''post'', JObj [(''responses'', JObj [(''429'', JObj [])])])])])]"

text \<open>A Swagger 2 document whose host ends in a slash; it declares no schemes.\<close>

definition slash_host_input :: string where
  "slash_host_input = ''{\"swagger\":\"2.0\",\"host\":\"api.example.org/\"}''"

definition slash_host_document :: jsval where
  "slash_host_document = JObj [(''swagger'', JStr ''2.0''), (''host'', JStr ''api.example.org/'')]"

text \<open>An OpenAPI 3 document whose only operation is a \<open>head\<close> with a 429 response.\<close>

definition head_only_input :: string where
  "head_only_input = ''{\"openapi\":\"3.0.0\",\"paths\":{\"/a\":{\"head\":{\"responses\":{\"429\":{\"description\":\"slow down\"}}}}}}''"

definition head_only_document :: jsval where
  "head_only_document =
     JObj [(''openapi'', JStr ''3.0.0''),
           (''paths'', JObj [(''/a'', JObj [
              (''head'', JObj [(''responses'', JObj [
                 (''429'', JObj [(''description'', JStr ''slow down'')])])])])])]"

text \<open>An OpenAPI 3 document in which two operations carry the same \<open>operationId\<close>.\<close>

definition duplicate_id_input :: string where
  "duplicate_id_input = ''{\"openapi\":\"3.0.0\",\"paths\":{\"/a\":{\"get\":{\"operationId\":\"getThing\"}},\"/b\":{\"get\":{\"operationId\":\"getThing\"}}}}''"

definition duplicate_id_document :: jsval where
  "duplicate_id_document =
     JObj [(''openapi'', JStr ''3.0.0''),
           (''paths'', JObj [
              (''/a'', JObj [(''get'', JObj [(''operationId'', JStr ''getThing'')])]),
              (''/b'', JObj [(''get'', JObj [(''operationId'', JStr ''getThing'')])])])]"

text \<open>
  A stand-in for the platform, used only to run the examples: \<open>JSON.parse\<close> decodes the
  example documents (and \<open>null\<close>) and throws on any other text, \<open>yaml.load\<close> throws,
  and the path name of a URL is what follows the host up to \<open>?\<close> or \<open>#\<close>, with braces
  percent-encoded as a WHATWG URL parser does.
\<close>

fun after_scheme :: "string \<Rightarrow> string option" where
  "after_scheme (a # b # c # rest) =
     (if [a, b, c] = ''://'' then Some rest else after_scheme (b # c # rest))"
| "after_scheme s = None"

definition encode_brace :: "char \<Rightarrow> string" where
  "encode_brace c = (if c = CHR ''{'' then ''%7B'' else if c = CHR ''}'' then ''%7D'' else [c])"

definition simple_pathname :: "string \<Rightarrow> string option" where
  "simple_pathname u =
     (case after_scheme u of
        None \<Rightarrow> None
      | Some rest \<Rightarrow>
          (let p = takeWhile (\<lambda>c. c \<noteq> CHR ''?'' \<and> c \<noteq> CHR ''#'') (dropWhile (\<lambda>c. c \<noteq> CHR ''/'') rest)
           in Some (if p = [] then ''/'' else concat (map encode_brace p))))"

definition example_platform :: platform where
  "example_platform =
     \<lparr>JSON_parse = map_of [(roundtrip_input, roundtrip_document),
                           (ref_parameter_input, ref_parameter_document),
                           (swagger2_example_input, swagger2_example),
                           (rate_limited_input, rate_limited_document),
                           (duplicate_id_input, duplicate_id_document),
                           (slash_host_input, slash_host_document),
                           (head_only_input, head_only_document),
                           (''null'', JNull)],
      yaml_load = (\<lambda>s. None),
      string_is_positive_number = (\<lambda>s. False),
      URL_pathname = simple_pathname\<rparr>"

section \<open>C2: the round-trip scenario\<close>

lemma roundtrip_parseDocument:
  "map_option (\<lambda>r. (title (spec r), baseUrl (spec r),
                     map (\<lambda>e. (ep_id e, ep_method e, ep_path e, parameters e)) (endpoints (spec r)),
                     todos r))
     (parseDocument P roundtrip_document)
   = Some (JStr ''T'', JStr ''https://x.io'', [(JStr ''getA'', ''GET'', ''/a'', [])], [])"
  unfolding roundtrip_document_def by code_simp

text \<open>
  C2. When \<open>JSON.parse\<close> decodes the round-trip input to the document it denotes,
  \<open>parseOpenApiSpec\<close> returns a result whose spec has title \<open>T\<close>, base URL
  \<open>https://x.io\<close> and exactly one endpoint, with id \<open>getA\<close>, method \<open>GET\<close>, path
  \<open>/a\<close> and no parameters; the result has no todos.
\<close>

theorem roundtrip_scenario:
  assumes "JSON_parse P roundtrip_input = Some roundtrip_document"
  shows "\<exists>r e. parseOpenApiSpec P roundtrip_input = Inr r \<and>
           title (spec r) = JStr ''T'' \<and> baseUrl (spec r) = JStr ''https://x.io'' \<and>
           endpoints (spec r) = [e] \<and> ep_id e = JStr ''getA'' \<and> ep_method e = ''GET'' \<and>
           ep_path e = ''/a'' \<and> parameters e = [] \<and> todos r = []"
proof -
  from roundtrip_parseDocument[of P] obtain r where
    r: "parseDocument P roundtrip_document = Some r"
    and t: "title (spec r) = JStr ''T''" and b: "baseUrl (spec r) = JStr ''https://x.io''"
    and es: "map (\<lambda>e. (ep_id e, ep_method e, ep_path e, parameters e)) (endpoints (spec r))
             = [(JStr ''getA'', ''GET'', ''/a'', [])]"
    and td: "todos r = []"
    by auto
  from es obtain e where e: "endpoints (spec r) = [e]" "ep_id e = JStr ''getA''"
    "ep_method e = ''GET''" "ep_path e = ''/a''" "parameters e = []"
    by (cases "endpoints (spec r)") auto
  from assms r have "parseOpenApiSpec P roundtrip_input = Inr r"
    by (simp add: parseOpenApiSpec_def decode_def)
  with t b e td show ?thesis by blast
qed

lemma example_platform_roundtrip:
  "JSON_parse example_platform roundtrip_input = Some roundtrip_document"
  by (simp add: example_platform_def)

theorem roundtrip_scenario_witness:
  "JSON_parse example_platform roundtrip_input = Some roundtrip_document \<and>
   (\<exists>r e. parseOpenApiSpec example_platform roundtrip_input = Inr r \<and>
      title (spec r) = JStr ''T'' \<and> baseUrl (spec r) = JStr ''https://x.io'' \<and>
      endpoints (spec r) = [e] \<and> ep_id e = JStr ''getA'' \<and> ep_method e = ''GET'' \<and>
      ep_path e = ''/a'' \<and> parameters e = [] \<and> todos r = [])"
  using roundtrip_scenario[OF example_platform_roundtrip] example_platform_roundtrip by simp

section \<open>C8: the base URL of a Swagger 2 document\<close>

text \<open>
  A Swagger 2 document (its \<open>swagger\<close> key is set) that declares the host \<open>h\<close> and no
  base path; \<open>sch\<close> is the first entry of \<open>schemes\<close>, or \<open>https\<close> when \<open>schemes\<close>
  is absent.
\<close>

definition swagger2_host_only :: "jsval \<Rightarrow> string \<Rightarrow> string \<Rightarrow> bool" where
  "swagger2_host_only doc sch h =
     (truthy (js_prop doc ''swagger'') \<and> js_prop doc ''host'' = JStr h \<and> h \<noteq> [] \<and>
      js_prop doc ''basePath'' = JUndefined \<and>
      (case js_prop doc ''schemes'' of
         JUndefined \<Rightarrow> sch = ''https''
       | JArr (JStr s # rest) \<Rightarrow> sch = s
       | _ \<Rightarrow> False))"

lemma array_index_0 [simp]: "array_index ''0'' = Some 0"
  by (simp add: array_index_def is_digit_def digit_val_def)

lemma js_prop_truthy_not_nullish: "truthy (js_prop v k) \<Longrightarrow> \<not> nullish v"
  by (auto simp: nullish_def)

lemma swagger2_extractBaseUrl:
  assumes "swagger2_host_only doc sch h"
  shows "extractBaseUrl P doc True = Some (JStr (sch @ ''://'' @ h))"
proof -
  from assms have nn: "\<not> nullish doc" and host: "js_prop doc ''host'' = JStr h" "h \<noteq> []"
    and bp: "js_prop doc ''basePath'' = JUndefined"
    by (auto simp: swagger2_host_only_def js_prop_truthy_not_nullish)
  from assms have "getp (or_js (js_prop doc ''schemes'') (JArr [JStr ''https''])) ''0'' = Some (JStr sch)"
    by (auto simp: swagger2_host_only_def or_js_def getp_def nullish_def
             split: jsval.splits list.splits)
  with nn host bp show ?thesis
    by (simp add: extractBaseUrl_def getp_def or_js_def)
qed

text \<open>
  C8 (amended). For every Swagger 2 document that declares a host and no base path,
  \<open>extractBaseUrl\<close> returns exactly \<open>sch://h\<close>, where \<open>sch\<close> is the first entry of
  \<open>schemes\<close> or \<open>https\<close> when \<open>schemes\<close> is absent; and whenever
  \<open>parseOpenApiSpec\<close> returns a result for an input decoded to the document, the base
  URL of the spec is exactly \<open>sch://h\<close>. Nothing is appended to the host and nothing is
  stripped from it, so the base URL ends in a slash when the host does.
\<close>

theorem swagger2_base_url:
  assumes "swagger2_host_only doc sch h"
  shows "extractBaseUrl P doc True = Some (JStr (sch @ ''://'' @ h)) \<and>
         (\<forall>input r. decode P input = Some doc \<and> parseOpenApiSpec P input = Inr r
            \<longrightarrow> baseUrl (spec r) = JStr (sch @ ''://'' @ h))"
proof (intro conjI allI impI)
  show "extractBaseUrl P doc True = Some (JStr (sch @ ''://'' @ h))"
    by (rule swagger2_extractBaseUrl[OF assms])
next
  fix input r
  assume a: "decode P input = Some doc \<and> parseOpenApiSpec P input = Inr r"
  then have "parseDocument P doc = Some r"
    by (auto simp: parseOpenApiSpec_Inr_iff)
  from parseDocument_SomeD[OF this] obtain url where
    "extractBaseUrl P doc (truthy (js_prop doc ''swagger'')) = Some url"
    "baseUrl (spec r) = or_js url (JStr ''https://api.example.com'')"
    by blast
  moreover from assms have "truthy (js_prop doc ''swagger'')" "h \<noteq> []"
    by (auto simp: swagger2_host_only_def)
  ultimately show "baseUrl (spec r) = JStr (sch @ ''://'' @ h)"
    using swagger2_extractBaseUrl[OF assms, of P] by (auto simp: or_js_def)
qed

lemma swagger2_example_parses:
  "(case parseOpenApiSpec example_platform swagger2_example_input of
      Inr r \<Rightarrow> baseUrl (spec r) = JStr ''http://api.example.org''
    | Inl e \<Rightarrow> False)"
  by code_simp

theorem swagger2_base_url_witness:
  "swagger2_host_only swagger2_example ''http'' ''api.example.org'' \<and>
   decode example_platform swagger2_example_input = Some swagger2_example \<and>
   extractBaseUrl example_platform swagger2_example True = Some (JStr ''http://api.example.org'') \<and>
   (\<exists>r. parseOpenApiSpec example_platform swagger2_example_input = Inr r \<and>
        baseUrl (spec r) = JStr ''http://api.example.org'')"
proof -
  have h: "swagger2_host_only swagger2_example ''http'' ''api.example.org''"
    by (simp add: swagger2_host_only_def swagger2_example_def)
  have d: "decode example_platform swagger2_example_input = Some swagger2_example"
    by code_simp
  from swagger2_example_parses obtain r where
    r: "parseOpenApiSpec example_platform swagger2_example_input = Inr r"
    by (cases "parseOpenApiSpec example_platform swagger2_example_input") auto
  from swagger2_base_url[OF h, of example_platform] d r
  have "extractBaseUrl example_platform swagger2_example True = Some (JStr ''http://api.example.org'')"
    and "baseUrl (spec r) = JStr ''http://api.example.org''"
    by auto
  with h d r show ?thesis by blast
qed

text \<open>
  The base URL can end in a slash: the document \<open>slash_host_input\<close> is a Swagger 2
  document with the host \<open>api.example.org/\<close>, no base path and no schemes, and its base
  URL is \<open>https://api.example.org/\<close>.
\<close>

lemma slash_host_parses:
  "(case parseOpenApiSpec example_platform slash_host_input of
      Inr r \<Rightarrow> baseUrl (spec r) = JStr ''https://api.example.org/''
    | Inl e \<Rightarrow> False)"
  by code_simp

theorem swagger2_trailing_slash_counterexample:
  "swagger2_host_only slash_host_document ''https'' ''api.example.org/'' \<and>
   decode example_platform slash_host_input = Some slash_host_document \<and>
   (\<exists>r. parseOpenApiSpec example_platform slash_host_input = Inr r \<and>
        baseUrl (spec r) = JStr ''https://api.example.org/'' \<and>
        last ''https://api.example.org/'' = CHR ''/'')"
proof -
  have h: "swagger2_host_only slash_host_document ''https'' ''api.example.org/''"
    by (simp add: swagger2_host_only_def slash_host_document_def)
  have d: "decode example_platform slash_host_input = Some slash_host_document"
    by code_simp
  from slash_host_parses obtain r where
    "parseOpenApiSpec example_platform slash_host_input = Inr r"
    "baseUrl (spec r) = JStr ''https://api.example.org/''"
    by (cases "parseOpenApiSpec example_platform slash_host_input") auto
  with h d show ?thesis by auto
qed

section \<open>C6: documents without a security scheme\<close>

text \<open>
  The security schemes a document declares, where its version keeps them:
  \<open>securityDefinitions\<close> (Swagger 2) or \<open>components.securitySchemes\<close> (OpenAPI 3).
  A document declares none when that value is absent or is the empty object.
\<close>

definition declared_security_schemes :: "jsval \<Rightarrow> jsval" where
  "declared_security_schemes doc =
     (if truthy (js_prop doc ''swagger'') then js_prop doc ''securityDefinitions''
      else opt_chain (js_prop doc ''components'') ''securitySchemes'')"

definition no_security_scheme :: "jsval \<Rightarrow> bool" where
  "no_security_scheme doc =
     (declared_security_schemes doc = JUndefined \<or> declared_security_schemes doc = JObj [])"

lemma extractAuth_no_scheme:
  assumes "no_security_scheme doc" and "\<not> nullish doc"
  shows "extractAuth doc (truthy (js_prop doc ''swagger'')) ws =
           Some (\<lparr>auth_type = none, headerName = JUndefined, queryParamName = JUndefined,
                  scheme = JUndefined, auth_description = JStr ''No authentication detected.'',
                  flows = JUndefined\<rparr>,
                 ws @ [''No security schemes found '' @ em_dash @
                       '' API might be public or auth docs are missing.''])"
  using assms
  by (auto simp: extractAuth_def no_security_scheme_def declared_security_schemes_def getp_def)

lemma ref_parameter_no_scheme:
  "no_security_scheme ref_parameter_document \<and> \<not> nullish ref_parameter_document"
  by (simp add: no_security_scheme_def declared_security_schemes_def ref_parameter_document_def
                opt_chain_def nullish_def)

lemma ref_parameter_no_result: "parseDocument P ref_parameter_document = None"
  unfolding ref_parameter_document_def by code_simp

text \<open>
  C6. For a decoded document that declares no security scheme, \<open>extractAuth\<close> returns
  the scheme of type \<open>none\<close> and pushes one warning; and whenever
  \<open>parseOpenApiSpec\<close> returns a result for an input decoded to it, the auth scheme of
  the spec has type \<open>none\<close> and the result carries exactly one warning. The parser
  does not return a result for every such document: \<open>ref_parameter_input\<close> is a valid
  OpenAPI 3 document that declares no security scheme; its one parameter is a reference,
  which has no name, and the \<open>TypeError\<close> of \<open>p.name.toLowerCase()\<close> in
  \<open>detectPagination\<close> escapes from \<open>parseOpenApiSpec\<close>, so that no auth scheme and
  no warning are returned.
\<close>

theorem no_security_scheme_none:
  assumes "no_security_scheme doc" and "\<not> nullish doc"
  shows "(\<exists>a w. extractAuth doc (truthy (js_prop doc ''swagger'')) [] = Some (a, [w]) \<and>
                auth_type a = none) \<and>
         (\<forall>P input r. decode P input = Some doc \<and> parseOpenApiSpec P input = Inr r
            \<longrightarrow> auth_type (auth (spec r)) = none \<and> length (warnings r) = 1) \<and>
         (\<forall>P. JSON_parse P ref_parameter_input = Some ref_parameter_document
            \<longrightarrow> no_security_scheme ref_parameter_document \<and>
                parseOpenApiSpec P ref_parameter_input = Inl TypeError)"
proof (intro conjI)
  show "\<exists>a w. extractAuth doc (truthy (js_prop doc ''swagger'')) [] = Some (a, [w]) \<and>
               auth_type a = none"
    using extractAuth_no_scheme[OF assms, of "[]"] by simp
next
  show "\<forall>P input r. decode P input = Some doc \<and> parseOpenApiSpec P input = Inr r
            \<longrightarrow> auth_type (auth (spec r)) = none \<and> length (warnings r) = 1"
  proof (intro allI impI)
    fix P input r
    assume "decode P input = Some doc \<and> parseOpenApiSpec P input = Inr r"
    then have "parseDocument P doc = Some r"
      by (auto simp: parseOpenApiSpec_Inr_iff)
    from parseDocument_SomeD[OF this] obtain a ws where
      "extractAuth doc (truthy (js_prop doc ''swagger'')) [] = Some (a, ws)"
      "auth (spec r) = a" "warnings r = ws"
      by blast
    with extractAuth_no_scheme[OF assms, of "[]"]
    show "auth_type (auth (spec r)) = none \<and> length (warnings r) = 1"
      by auto
  qed
next
  show "\<forall>P. JSON_parse P ref_parameter_input = Some ref_parameter_document
            \<longrightarrow> no_security_scheme ref_parameter_document \<and>
                parseOpenApiSpec P ref_parameter_input = Inl TypeError"
    using ref_parameter_no_scheme
    by (simp add: parseOpenApiSpec_def decode_def ref_parameter_no_result)
qed

lemma roundtrip_example_auth:
  "(case parseOpenApiSpec example_platform roundtrip_input of
      Inr r \<Rightarrow> auth_type (auth (spec r)) = none \<and> length (warnings r) = 1
    | Inl e \<Rightarrow> False)"
  by code_simp

theorem no_security_scheme_none_witness:
  "no_security_scheme roundtrip_document \<and> \<not> nullish roundtrip_document \<and>
   decode example_platform roundtrip_input = Some roundtrip_document \<and>
   (\<exists>r. parseOpenApiSpec example_platform roundtrip_input = Inr r \<and>
        auth_type (auth (spec r)) = none \<and> length (warnings r) = 1) \<and>
   JSON_parse example_platform ref_parameter_input = Some ref_parameter_document \<and>
   no_security_scheme ref_parameter_document \<and>
   parseOpenApiSpec example_platform ref_parameter_input = Inl TypeError"
proof -
  have h: "no_security_scheme roundtrip_document"
    by (simp add: no_security_scheme_def declared_security_schemes_def roundtrip_document_def
                  opt_chain_def nullish_def)
  have n: "\<not> nullish roundtrip_document"
    by (simp add: nullish_def roundtrip_document_def)
  have d: "decode example_platform roundtrip_input = Some roundtrip_document"
    by code_simp
  have j: "JSON_parse example_platform ref_parameter_input = Some ref_parameter_document"
    by code_simp
  from roundtrip_example_auth obtain r where
    r: "parseOpenApiSpec example_platform roundtrip_input = Inr r"
    by (cases "parseOpenApiSpec example_platform roundtrip_input") auto
  note t = no_security_scheme_none[OF h n]
  from t d r have "auth_type (auth (spec r)) = none \<and> length (warnings r) = 1"
    by blast
  moreover from t j have "no_security_scheme ref_parameter_document \<and>
      parseOpenApiSpec example_platform ref_parameter_input = Inl TypeError"
    by blast
  ultimately show ?thesis using h n d r j by blast
qed

text \<open>
  On that document \<open>extractAuth\<close> itself computes the scheme of type \<open>none\<close> and the
  one warning that the parser then fails to return.
\<close>

lemma no_security_scheme_failing_input:
  "decode example_platform ref_parameter_input = Some ref_parameter_document \<and>
   map_option (\<lambda>(a, ws). (auth_type a, length ws)) (extractAuth ref_parameter_document False [])
     = Some (none, 1) \<and>
   parseOpenApiSpec example_platform ref_parameter_input = Inl TypeError"
  by code_simp

section \<open>C7: one rate-limit hint for a 429 response\<close>

lemma mapM_Some_iff: "mapM f xs = Some ys \<longleftrightarrow> list_all2 (\<lambda>x y. f x = Some y) xs ys"
proof (induction xs arbitrary: ys)
  case Nil
  show ?case by auto
next
  case (Cons x xs)
  show ?case
    by (cases ys) (auto simp: bind_eq_Some_conv Cons.IH)
qed

lemma mapM_Some_map: "mapM f xs = Some ys \<Longrightarrow> map f xs = map Some ys"
  by (induction xs arbitrary: ys) (auto simp: bind_eq_Some_conv)

text \<open>
  The operations a document declares under given keys of its path items, in document
  order: for each path item and each key, the value under the key when it is truthy.
  The keys the parser supports are written out here, as are the keys under which the
  OpenAPI specification allows an operation.
\<close>

definition operations_under :: "string list \<Rightarrow> jsval \<Rightarrow> jsval list" where
  "operations_under keys doc =
     concat (map (\<lambda>(path, pathItem). filter truthy (map (js_prop pathItem) keys))
                 (own_entries (or_js (js_prop doc ''paths'') (JObj []))))"

definition supported_operation_keys :: "string list" where
  "supported_operation_keys = [''get'', ''post'', ''put'', ''patch'', ''delete'']"

definition openapi_operation_keys :: "string list" where
  "openapi_operation_keys =
     [''get'', ''put'', ''post'', ''delete'', ''options'', ''head'', ''patch'', ''trace'']"

text \<open>
  The responses an operation declares, as pairs of status-code key and response object,
  and whether some operation under the given keys declares a response under the key
  \<open>429\<close>; the first such response of the supported operations.
\<close>

definition declared_responses :: "jsval \<Rightarrow> (string \<times> jsval) list" where
  "declared_responses op = own_entries (or_js (js_prop op ''responses'') (JObj []))"

definition declares_429 :: "string list \<Rightarrow> jsval \<Rightarrow> bool" where
  "declares_429 keys doc =
     list_ex (\<lambda>op. ''429'' \<in> set (map fst (declared_responses op))) (operations_under keys doc)"

definition first_429_response :: "jsval \<Rightarrow> jsval option" where
  "first_429_response doc =
     map_option snd
       (find (\<lambda>e. fst e = ''429'')
          (concat (map declared_responses (operations_under supported_operation_keys doc))))"

definition rate_limit_hint :: "jsval \<Rightarrow> RateLimitHint" where
  "rate_limit_hint d =
     \<lparr>rl_statusCode = 429, retryHeader = ''Retry-After'',
      rl_description = or_js d (JStr (''Rate limit exceeded '' @ em_dash @ '' wait and retry.''))\<rparr>"

text \<open>What a response definition keeps of a declared response.\<close>

definition response_summary :: "ResponseDef \<Rightarrow> string \<times> jsval" where
  "response_summary r = (statusCode r, resp_description r)"

definition declared_summary :: "string \<times> jsval \<Rightarrow> string \<times> jsval" where
  "declared_summary e = (fst e, or_js (js_prop (snd e) ''description'') (JStr ''''))"

lemma supported_keys_of_methods: "map toLowerCase methods = supported_operation_keys"
  by code_simp

lemma extractResponses_summaries:
  assumes "extractResponses op sw ws = Some resps"
  shows "map response_summary resps = map declared_summary (declared_responses op)"
proof -
  from assms obtain es where es: "Object_entries (or_js (js_prop op ''responses'') (JObj [])) = Some es"
    and m: "mapM (\<lambda>(code, resp). do {
             content \<leftarrow> getp resp ''content'';
             (fields, ex) \<leftarrow>
               (if truthy content then do {
                  let jsonContent = json_or_first_content content;
                  if truthy jsonContent then do {
                    jschema \<leftarrow> getp jsonContent ''schema'';
                    fs \<leftarrow> flattenSchema jschema;
                    jexample \<leftarrow> getp jsonContent ''example'';
                    Some (fs, or_js jexample (opt_chain jschema ''example''))
                  } else Some ([], JUndefined)
                } else do {
                  rschema \<leftarrow> getp resp ''schema'';
                  if truthy rschema then do { fs \<leftarrow> flattenSchema rschema; Some (fs, JUndefined) }
                  else Some ([], JUndefined)
                });
             rdescription \<leftarrow> getp resp ''description'';
             Some \<lparr>statusCode = code, resp_description = or_js rdescription (JStr ''''),
                   resp_schema = Some fields, resp_example = ex\<rparr>
           }) es = Some resps"
    unfolding extractResponses_def by (auto simp: bind_eq_Some_conv getp_Some_iff)
  from m have "list_all2 (\<lambda>e r. response_summary r = declared_summary e) es resps"
    unfolding mapM_Some_iff
    by (rule list_all2_mono)
       (auto simp: bind_eq_Some_conv getp_Some_iff response_summary_def declared_summary_def
             split: prod.splits)
  then have "map response_summary resps = map declared_summary es"
    by (induction rule: list_all2_induct) auto
  moreover from es have "es = own_entries (or_js (js_prop op ''responses'') (JObj []))"
    by (auto simp: Object_entries_def split: if_splits)
  ultimately show ?thesis by (simp add: declared_responses_def)
qed

lemma extractOperation_cases:
  assumes "extractOperation doc sw ws path pathItem m = Some res"
  shows "(\<not> truthy (js_prop pathItem (toLowerCase m)) \<and> res = None) \<or>
         (truthy (js_prop pathItem (toLowerCase m)) \<and>
          (\<exists>ep. res = Some ep \<and> ep_method ep = m \<and> ep_path ep = path \<and>
                map response_summary (responses ep)
                = map declared_summary (declared_responses (js_prop pathItem (toLowerCase m)))))"
  using assms unfolding extractOperation_def
  by (auto simp: bind_eq_Some_conv getp_Some_iff Let_def dest: extractResponses_summaries
           split: if_splits)

lemma map_filter_append: "List.map_filter f (xs @ ys) = List.map_filter f xs @ List.map_filter f ys"
  by (simp add: List.map_filter_def)

lemma row_summaries:
  assumes "list_all2 (\<lambda>m e. extractOperation doc sw ws path item m = Some e) ms row"
  shows "map (\<lambda>ep. map response_summary (responses ep)) (List.map_filter (\<lambda>e. e) row)
         = map (\<lambda>op. map declared_summary (declared_responses op))
             (filter truthy (map (js_prop item) (map toLowerCase ms)))"
  using assms
proof (induction rule: list_all2_induct)
  case Nil
  show ?case by (simp add: List.map_filter_simps)
next
  case (Cons m ms e row)
  from extractOperation_cases[OF Cons.hyps(1)] Cons.IH show ?case
    by (auto simp: List.map_filter_simps)
qed

lemma rows_summaries:
  assumes "list_all2 (\<lambda>pi row. case pi of (path, item) \<Rightarrow>
              list_all2 (\<lambda>m e. extractOperation doc sw ws path item m = Some e) methods row) es rows"
  shows "map (\<lambda>ep. map response_summary (responses ep)) (List.map_filter (\<lambda>e. e) (concat rows))
         = map (\<lambda>op. map declared_summary (declared_responses op))
             (concat (map (\<lambda>(path, pathItem).
                filter truthy (map (js_prop pathItem) supported_operation_keys)) es))"
  using assms
proof (induction rule: list_all2_induct)
  case Nil
  show ?case by (simp add: List.map_filter_simps)
next
  case (Cons pi es row rows)
  obtain path item where pi: "pi = (path, item)" by (cases pi)
  with Cons.hyps(1) have "list_all2 (\<lambda>m e. extractOperation doc sw ws path item m = Some e) methods row"
    by simp
  from row_summaries[OF this] Cons.IH pi show ?case
    by (simp add: map_filter_append supported_keys_of_methods)
qed

lemma extractEndpoints_summaries:
  assumes "extractEndpoints doc sw ws = Some eps"
  shows "map (\<lambda>ep. map response_summary (responses ep)) eps
         = map (\<lambda>op. map declared_summary (declared_responses op))
             (operations_under supported_operation_keys doc)"
proof -
  from assms obtain es rows where
    es: "Object_entries (or_js (js_prop doc ''paths'') (JObj [])) = Some es"
    and rows: "mapM (\<lambda>(path, pathItem).
                      mapM (extractOperation doc sw ws path pathItem) methods) es = Some rows"
    and eps: "eps = List.map_filter (\<lambda>e. e) (concat rows)"
    unfolding extractEndpoints_def by (auto simp: bind_eq_Some_conv getp_Some_iff)
  from rows have "list_all2 (\<lambda>pi row. case pi of (path, item) \<Rightarrow>
              list_all2 (\<lambda>m e. extractOperation doc sw ws path item m = Some e) methods row) es rows"
    unfolding mapM_Some_iff
    by (rule list_all2_mono) (auto simp: mapM_Some_iff)
  from rows_summaries[OF this] eps
  have "map (\<lambda>ep. map response_summary (responses ep)) eps
         = map (\<lambda>op. map declared_summary (declared_responses op))
             (concat (map (\<lambda>(path, pathItem).
                filter truthy (map (js_prop pathItem) supported_operation_keys)) es))"
    by simp
  moreover from es have "es = own_entries (or_js (js_prop doc ''paths'') (JObj []))"
    by (auto simp: Object_entries_def split: if_splits)
  ultimately show ?thesis by (simp add: operations_under_def)
qed

lemma find_append_cases:
  "find Q (xs @ ys) = (case find Q xs of None \<Rightarrow> find Q ys | Some x \<Rightarrow> Some x)"
  by (induction xs) auto

lemma find_map_comp: "find Q (map f xs) = map_option f (find (\<lambda>x. Q (f x)) xs)"
  by (induction xs) auto

lemma find_None_set: "(find Q xs = None) = (\<forall>x \<in> set xs. \<not> Q x)"
  by (induction xs) auto

text \<open>The two loops of \<open>detectRateLimits\<close> find the first 429 response of all endpoints.\<close>

lemma detectRateLimits_first:
  "detectRateLimits eps
   = (case find (\<lambda>s. fst s = ''429'') (concat (map (\<lambda>ep. map response_summary (responses ep)) eps)) of
        None \<Rightarrow> []
      | Some s \<Rightarrow> [rate_limit_hint (snd s)])"
proof (induction eps)
  case Nil
  show ?case by simp
next
  case (Cons ep eps)
  have f: "find (\<lambda>s. fst s = ''429'') (map response_summary (responses ep))
           = map_option response_summary (find (\<lambda>r. statusCode r = ''429'') (responses ep))"
    by (simp add: find_map_comp response_summary_def)
  show ?case
  proof (cases "find (\<lambda>r. statusCode r = ''429'') (responses ep)")
    case None
    then show ?thesis by (simp add: find_append_cases f Cons.IH)
  next
    case (Some a)
    then show ?thesis
      by (simp add: find_append_cases f) (simp add: rate_limit_hint_def response_summary_def)
  qed
qed

lemma or_js_empty_default: "or_js (or_js d (JStr '''')) x = or_js d x"
  by (simp add: or_js_def)

lemma document_rate_limit_hints:
  assumes "extractEndpoints doc sw ws = Some eps"
  shows "detectRateLimits eps
         = (case first_429_response doc of
              None \<Rightarrow> []
            | Some resp \<Rightarrow> [rate_limit_hint (js_prop resp ''description'')])"
proof -
  let ?rs = "concat (map declared_responses (operations_under supported_operation_keys doc))"
  have "concat (map (\<lambda>ep. map response_summary (responses ep)) eps)
        = map declared_summary ?rs"
    unfolding extractEndpoints_summaries[OF assms] by (simp add: map_concat comp_def)
  then have "detectRateLimits eps
        = (case map_option declared_summary (find (\<lambda>e. fst e = ''429'') ?rs) of
             None \<Rightarrow> [] | Some s \<Rightarrow> [rate_limit_hint (snd s)])"
    by (simp add: detectRateLimits_first find_map_comp declared_summary_def)
  then show ?thesis
    by (cases "find (\<lambda>e. fst e = ''429'') ?rs")
       (simp_all add: first_429_response_def declared_summary_def rate_limit_hint_def
                      or_js_empty_default)
qed

lemma first_429_response_iff:
  "first_429_response doc \<noteq> None \<longleftrightarrow> declares_429 supported_operation_keys doc"
  by (force simp: first_429_response_def declares_429_def find_None_set list_ex_iff image_iff)

text \<open>
  C7 (amended). Whenever \<open>parseOpenApiSpec\<close> returns a result for an input decoded to
  \<open>doc\<close>: if a \<open>get\<close>, \<open>post\<close>, \<open>put\<close>, \<open>patch\<close> or \<open>delete\<close> operation of
  \<open>doc\<close> declares a response under the key \<open>429\<close>, the list of rate-limit hints is
  the single hint with status code 429, retry header \<open>Retry-After\<close> and the description
  of the first such response in document order (a fixed text when it has none); otherwise
  the list is empty. Responses of operations under other keys (\<open>head\<close>, \<open>options\<close>,
  \<open>trace\<close>) are not looked at.
\<close>

theorem rate_limit_hint_count:
  "\<forall>P input doc r. decode P input = Some doc \<and> parseOpenApiSpec P input = Inr r
      \<longrightarrow> length (rateLimitHints (spec r))
            = (if declares_429 supported_operation_keys doc then 1 else 0) \<and>
          rateLimitHints (spec r)
            = (case first_429_response doc of
                 None \<Rightarrow> []
               | Some resp \<Rightarrow> [rate_limit_hint (js_prop resp ''description'')])"
proof (intro allI impI)
  fix P input doc r
  assume "decode P input = Some doc \<and> parseOpenApiSpec P input = Inr r"
  then have "parseDocument P doc = Some r"
    by (auto simp: parseOpenApiSpec_Inr_iff)
  from parseDocument_SomeD[OF this] obtain ws eps where
    "extractEndpoints doc (truthy (js_prop doc ''swagger'')) ws = Some eps"
    "rateLimitHints (spec r) = detectRateLimits eps"
    by blast
  with document_rate_limit_hints[of doc _ ws eps]
  have v: "rateLimitHints (spec r)
           = (case first_429_response doc of
                None \<Rightarrow> []
              | Some resp \<Rightarrow> [rate_limit_hint (js_prop resp ''description'')])"
    by simp
  moreover have "length (rateLimitHints (spec r))
            = (if declares_429 supported_operation_keys doc then 1 else 0)"
    using first_429_response_iff[of doc] unfolding v
    by (cases "first_429_response doc") auto
  ultimately show "length (rateLimitHints (spec r))
            = (if declares_429 supported_operation_keys doc then 1 else 0) \<and>
          rateLimitHints (spec r)
            = (case first_429_response doc of
                 None \<Rightarrow> []
               | Some resp \<Rightarrow> [rate_limit_hint (js_prop resp ''description'')])"
    by simp
qed

lemma rate_limited_example_hints:
  "(case parseOpenApiSpec example_platform rate_limited_input of
      Inr r \<Rightarrow> length (rateLimitHints (spec r)) = 1
    | Inl e \<Rightarrow> False)"
  by code_simp

theorem rate_limit_hint_count_witness:
  "declares_429 supported_operation_keys rate_limited_document \<and>
   decode example_platform rate_limited_input = Some rate_limited_document \<and>
   (\<exists>r. parseOpenApiSpec example_platform rate_limited_input = Inr r \<and>
        rateLimitHints (spec r)
          = [\<lparr>rl_statusCode = 429, retryHeader = ''Retry-After'',
               rl_description = JStr ''slow down''\<rparr>])"
proof -
  have h: "declares_429 supported_operation_keys rate_limited_document"
    by code_simp
  have f: "first_429_response rate_limited_document = Some (JObj [(''description'', JStr ''slow down'')])"
    by code_simp
  have d: "decode example_platform rate_limited_input = Some rate_limited_document"
    by code_simp
  from rate_limited_example_hints obtain r where
    r: "parseOpenApiSpec example_platform rate_limited_input = Inr r"
    by (cases "parseOpenApiSpec example_platform rate_limited_input") auto
  from rate_limit_hint_count d r
  have "rateLimitHints (spec r)
          = (case first_429_response rate_limited_document of
               None \<Rightarrow> []
             | Some resp \<Rightarrow> [rate_limit_hint (js_prop resp ''description'')])"
    by blast
  then have "rateLimitHints (spec r)
          = [\<lparr>rl_statusCode = 429, retryHeader = ''Retry-After'',
               rl_description = JStr ''slow down''\<rparr>]"
    by (simp add: f rate_limit_hint_def or_js_def)
  with h d r show ?thesis by blast
qed

text \<open>
  A 429 response of an operation the parser does not support gives no hint: the only
  operation of \<open>head_only_input\<close> is a \<open>head\<close>, it declares a response under
  \<open>429\<close>, and the list of rate-limit hints is empty.
\<close>

lemma head_only_hints:
  "(case parseOpenApiSpec example_platform head_only_input of
      Inr r \<Rightarrow> rateLimitHints (spec r) = []
    | Inl e \<Rightarrow> False)"
  by code_simp

theorem head_operation_429_counterexample:
  "declares_429 openapi_operation_keys head_only_document \<and>
   decode example_platform head_only_input = Some head_only_document \<and>
   (\<exists>r. parseOpenApiSpec example_platform head_only_input = Inr r \<and>
        length (rateLimitHints (spec r)) = 0)"
proof -
  have h: "declares_429 openapi_operation_keys head_only_document"
    by code_simp
  have d: "decode example_platform head_only_input = Some head_only_document"
    by code_simp
  from head_only_hints obtain r where
    "parseOpenApiSpec example_platform head_only_input = Inr r" "rateLimitHints (spec r) = []"
    by (cases "parseOpenApiSpec example_platform head_only_input") auto
  with h d show ?thesis by auto
qed

section \<open>C9: the content type of an OpenAPI 3 request body\<close>

text \<open>
  The entry of a \<open>content\<close> object whose schema and example are used: the one under
  \<open>application/json\<close> when there is one (and it is not a falsy value), the first
  declared entry otherwise.
\<close>

definition used_media_type_entry :: "(string \<times> jsval) list \<Rightarrow> jsval" where
  "used_media_type_entry kvs =
     (case map_of kvs ''application/json'' of
        Some jc \<Rightarrow> if truthy jc then jc else snd (hd kvs)
      | None \<Rightarrow> snd (hd kvs))"

lemma first_entry_lookup: "kvs \<noteq> [] \<Longrightarrow> map_of kvs (fst (hd kvs)) = Some (snd (hd kvs))"
  by (cases kvs) auto

lemma json_or_first_content_entry:
  "kvs \<noteq> [] \<Longrightarrow> json_or_first_content (JObj kvs) = used_media_type_entry kvs"
  by (cases kvs)
     (auto simp: json_or_first_content_def used_media_type_entry_def first_key_def
                 property_key_def or_js_def split: option.splits)

text \<open>
  C9. For every OpenAPI 3 operation whose \<open>requestBody.content\<close> is an object that
  declares media types, whatever they are: when the entry used (the one of
  \<open>application/json\<close> if present, else the first declared) is an object,
  \<open>extractRequestBody\<close> returns a body whose schema is the flattened schema of that
  entry and whose example is taken from that entry (or from its schema), while its
  \<open>contentType\<close> is always the first declared key of \<open>content\<close>. The call throws
  only if flattening the schema does, and returns no body only if the entry used is a
  falsy value.
\<close>

theorem request_body_content_type:
  assumes "js_prop op ''requestBody'' = rb" and "truthy rb"
      and "js_prop rb ''content'' = JObj kvs" and "kvs \<noteq> []"
  shows "extractRequestBody op False =
           (if truthy (used_media_type_entry kvs)
            then map_option
                   (\<lambda>fields. Some \<lparr>rb_required = truthy (js_prop rb ''required''),
                                    contentType = JStr (fst (hd kvs)),
                                    rb_schema = fields,
                                    rb_example =
                                      or_js (js_prop (used_media_type_entry kvs) ''example'')
                                        (opt_chain (js_prop (used_media_type_entry kvs) ''schema'')
                                           ''example'')\<rparr>)
                   (flattenSchema (js_prop (used_media_type_entry kvs) ''schema''))
            else Some None)"
proof -
  from assms(1,2) have nn: "\<not> nullish op" "\<not> nullish rb"
    by (auto simp: nullish_def)
  from assms(4) have fk: "first_key (JObj kvs) = JStr (fst (hd kvs))"
    by (cases kvs) (auto simp: first_key_def)
  note jc = json_or_first_content_entry[OF assms(4)]
  show ?thesis
  proof (cases "truthy (used_media_type_entry kvs)")
    case False
    with assms nn jc show ?thesis
      by (simp add: extractRequestBody_def getp_def Let_def)
  next
    case True
    then have "\<not> nullish (used_media_type_entry kvs)" by (auto simp: nullish_def)
    with True assms nn fk jc show ?thesis
      by (cases "flattenSchema (js_prop (used_media_type_entry kvs) ''schema'')")
         (simp_all add: extractRequestBody_def getp_def Let_def)
  qed
qed

text \<open>
  An operation whose first media type is \<open>application/xml\<close>: the content type names it,
  the schema is the one of \<open>application/json\<close>.
\<close>

definition xml_first_operation :: jsval where
  "xml_first_operation =
     JObj [(''requestBody'', JObj [(''required'', JBool True), (''content'', JObj [
        (''application/xml'', JObj [(''schema'', JObj [(''type'', JStr ''string'')])]),
        (''application/json'', JObj [(''schema'', JObj [(''type'', JStr ''object''),
             (''properties'', JObj [(''name'', JObj [(''type'', JStr ''string'')])])]),
           (''example'', JObj [(''name'', JStr ''x'')])])])])]"

definition xml_first_json_entry :: jsval where
  "xml_first_json_entry =
     JObj [(''schema'', JObj [(''type'', JStr ''object''),
             (''properties'', JObj [(''name'', JObj [(''type'', JStr ''string'')])])]),
           (''example'', JObj [(''name'', JStr ''x'')])]"

lemma xml_first_flatten:
  "flattenSchema (js_prop xml_first_json_entry ''schema'')
   = Some [SchemaField ''name'' (JStr ''string'') False (JStr []) JUndefined JUndefined JUndefined None]"
  by code_simp

theorem request_body_content_type_witness:
  "truthy (js_prop xml_first_operation ''requestBody'') \<and>
   used_media_type_entry
     [(''application/xml'', JObj [(''schema'', JObj [(''type'', JStr ''string'')])]),
      (''application/json'', xml_first_json_entry)] = xml_first_json_entry \<and>
   extractRequestBody xml_first_operation False =
     Some (Some \<lparr>rb_required = True, contentType = JStr ''application/xml'',
                  rb_schema = [SchemaField ''name'' (JStr ''string'') False (JStr []) JUndefined
                                 JUndefined JUndefined None],
                  rb_example = JObj [(''name'', JStr ''x'')]\<rparr>)"
  using request_body_content_type[of xml_first_operation
          "js_prop xml_first_operation ''requestBody''"
          "[(''application/xml'', JObj [(''schema'', JObj [(''type'', JStr ''string'')])]),
            (''application/json'', xml_first_json_entry)]"]
        xml_first_flatten
  by (simp add: xml_first_operation_def xml_first_json_entry_def or_js_def
                used_media_type_entry_def)

text \<open>
  An operation that declares \<open>application/xml\<close> and \<open>text/plain\<close> only: the schema
  and the content type are both those of the first entry.
\<close>

lemma no_json_entry_example:
  "extractRequestBody
     (JObj [(''requestBody'', JObj [(''content'', JObj [
        (''application/xml'', JObj [(''schema'', JObj [(''type'', JStr ''object''),
             (''properties'', JObj [(''name'', JObj [(''type'', JStr ''string'')])])])]),
        (''text/plain'', JObj [(''schema'', JObj [(''type'', JStr ''string'')])])])])]) False
   = Some (Some \<lparr>rb_required = False, contentType = JStr ''application/xml'',
                  rb_schema = [SchemaField ''name'' (JStr ''string'') False (JStr []) JUndefined
                                 JUndefined JUndefined None],
                  rb_example = JUndefined\<rparr>)"
  by code_simp

section \<open>C1: the failures of parseOpenApiSpec\<close>

lemma ref_parameter_throws: "parseDocument P ref_parameter_document = None"
  unfolding ref_parameter_document_def by code_simp

lemma ref_parameter_extracted:
  "map_option (map (\<lambda>e. map param_name (parameters e)))
     (extractEndpoints ref_parameter_document False []) = Some [[JUndefined]]"
  unfolding ref_parameter_document_def by code_simp

lemma null_throws: "parseDocument P JNull = None"
  by (simp add: parseDocument_def getp_def nullish_def)

text \<open>
  C1. \<open>parseOpenApiSpec\<close> throws the error \<open>Could not parse input as JSON or YAML\<close>
  exactly when both decoders fail. It is not the only failure: on the valid OpenAPI 3
  document \<open>ref_parameter_input\<close>, whose parameter is a \<open>$ref\<close> without a name,
  \<open>detectPagination\<close> calls \<open>toLowerCase\<close> on \<open>undefined\<close> and a \<open>TypeError\<close>
  escapes; so it does on the input \<open>null\<close>, where \<open>doc.swagger\<close> reads a property
  of \<open>null\<close>. (\<open>parseTextDocs\<close> is a total function of the model: the one call of
  it that can throw, \<open>new URL\<close>, is caught by \<open>safeParseUrl\<close>.)
\<close>

theorem parse_error_only_when_both_decoders_fail:
  "(parseOpenApiSpec P input = Inl (Error ''Could not parse input as JSON or YAML'')
      \<longleftrightarrow> JSON_parse P input = None \<and> yaml_load P input = None) \<and>
   (JSON_parse P ref_parameter_input = Some ref_parameter_document
      \<longrightarrow> parseOpenApiSpec P ref_parameter_input = Inl TypeError) \<and>
   (JSON_parse P ''null'' = Some JNull \<longrightarrow> parseOpenApiSpec P ''null'' = Inl TypeError)"
  by (auto simp: parseOpenApiSpec_def decode_def ref_parameter_throws null_throws
           split: option.splits)

theorem parse_error_only_when_both_decoders_fail_witness:
  "JSON_parse example_platform ref_parameter_input = Some ref_parameter_document \<and>
   parseOpenApiSpec example_platform ref_parameter_input = Inl TypeError \<and>
   JSON_parse example_platform ''null'' = Some JNull \<and>
   parseOpenApiSpec example_platform ''null'' = Inl TypeError"
proof -
  have a: "JSON_parse example_platform ref_parameter_input = Some ref_parameter_document"
    by code_simp
  have b: "JSON_parse example_platform ''null'' = Some JNull"
    by code_simp
  from parse_error_only_when_both_decoders_fail[of example_platform] a b show ?thesis
    by blast
qed

section \<open>The loops of the text normalizer\<close>

lemma foldl_invariant:
  assumes "I st" and "\<And>st x. I st \<Longrightarrow> I (f st x)"
  shows "I (foldl f st xs)"
  using assms(1) by (induction xs arbitrary: st) (auto intro: assms(2))

lemma parseTextDocs_endpoints: "endpoints (spec (parseTextDocs P s)) = extractEndpoints_text P s"
  by (simp add: parseTextDocs_def Let_def split: prod.splits)

section \<open>C3: endpoint ids and endpoint keys\<close>











section \<open>C10: the fixed auth flag and response of text endpoints\<close>

definition canned :: "Endpoint \<Rightarrow> bool" where
  "canned ep = (auth_required ep \<and> responses ep = [ok_response])"

lemma pattern_step_canned: "list_all canned (fst st) \<Longrightarrow> list_all canned (fst (pattern_step s st m))"
  by (cases st) (auto simp: pattern_step_def Let_def canned_def)

lemma curl_step_canned: "list_all canned (fst st) \<Longrightarrow> list_all canned (fst (curl_step P st m))"
  by (cases st) (auto simp: curl_step_def Let_def canned_def split: option.splits)

lemma pattern_pass_canned: "list_all canned (fst (pattern_pass s))"
  unfolding pattern_pass_def
proof (rule foldl_invariant[where I = "\<lambda>st. list_all canned (fst st)"])
  show "list_all canned (fst ([], []))" by simp
next
  fix st :: "Endpoint list \<times> string list" and pattern
  assume "list_all canned (fst st)"
  then show "list_all canned (fst (foldl (pattern_step s) st (re_exec_all (Flags True False) pattern s)))"
    by (rule foldl_invariant[where I = "\<lambda>st. list_all canned (fst st)"]) (rule pattern_step_canned)
qed

lemma extractEndpoints_text_canned: "list_all canned (extractEndpoints_text P s)"
  unfolding extractEndpoints_text_def
  using pattern_pass_canned
  by (rule foldl_invariant[where I = "\<lambda>st. list_all canned (fst st)"]) (rule curl_step_canned)

text \<open>
  C10. Every endpoint the text normalizer returns requires auth and has exactly one
  response, with status code \<open>200\<close> and description \<open>Successful response\<close>,
  whatever the text says.
\<close>

theorem text_endpoints_auth_and_responses:
  "\<forall>ep \<in> set (endpoints (spec (parseTextDocs P s))).
     auth_required ep = True \<and> length (responses ep) = 1 \<and>
     (\<forall>r \<in> set (responses ep). statusCode r = ''200'' \<and> resp_description r = JStr ''Successful response'')"
proof -
  have "list_all canned (endpoints (spec (parseTextDocs P s)))"
    unfolding parseTextDocs_endpoints by (rule extractEndpoints_text_canned)
  then show ?thesis
    by (auto simp: list_all_iff canned_def ok_response_def)
qed

lemma two_endpoints_example:
  "map ep_path (extractEndpoints_text example_platform ''No auth. PUT /u/{id} gives 204. curl http://x.io/i'')
   = [''/u/{id}'', ''/i'']"
  by code_simp

theorem text_endpoints_auth_and_responses_witness:
  "\<exists>ep. ep \<in> set (endpoints (spec (parseTextDocs example_platform
             ''No auth. PUT /u/{id} gives 204. curl http://x.io/i''))) \<and>
        ep_path ep = ''/u/{id}'' \<and> auth_required ep = True \<and> length (responses ep) = 1 \<and>
        statusCode (hd (responses ep)) = ''200''"
proof -
  let ?s = "''No auth. PUT /u/{id} gives 204. curl http://x.io/i''"
  from two_endpoints_example obtain ep where
    ep: "ep \<in> set (endpoints (spec (parseTextDocs example_platform ?s)))" "ep_path ep = ''/u/{id}''"
    unfolding parseTextDocs_endpoints
    by (cases "extractEndpoints_text example_platform ?s") auto
  from text_endpoints_auth_and_responses[of example_platform ?s] ep(1)
  have "auth_required ep = True \<and> length (responses ep) = 1 \<and>
        (\<forall>r \<in> set (responses ep). statusCode r = ''200'' \<and>
            resp_description r = JStr ''Successful response'')"
    by blast
  then have "auth_required ep = True \<and> length (responses ep) = 1 \<and>
             statusCode (hd (responses ep)) = ''200''"
    by (cases "responses ep") auto
  with ep show ?thesis by blast
qed

section \<open>Facts about the matcher\<close>

lemmas rmatch_Star = rmatch.simps(6)
declare rmatch.simps(6) [simp del]

lemma star_class_Nil: "rmatch fl (Star (Cls neg items)) p [] caps = [(p, [], caps)]"
  by (simp add: rmatch_Star)

lemma star_class_Cons:
  "rmatch fl (Star (Cls neg items)) p (x # xs) caps =
     (if char_matches fl (Cls neg items) x
      then rmatch fl (Star (Cls neg items)) (Some x) xs caps @ [(p, x # xs, caps)]
      else [(p, x # xs, caps)])"
  by (simp add: rmatch_Star)

lemma search_match:
  "rmatch fl r p xs [] = (p', xs', caps) # rest \<Longrightarrow>
   search fl r p xs i = Some \<lparr>m_index = i, m_text = take (length xs - length xs') xs,
                              m_groups = caps, m_prev = p', m_rest = xs'\<rparr>"
  by simp

lemma search_Cons_no_match:
  "rmatch fl r p (x # xs) [] = [] \<Longrightarrow> search fl r p (x # xs) i = search fl r (Some x) xs (Suc i)"
  by simp

lemma search_Nil_no_match: "rmatch fl r p [] [] = [] \<Longrightarrow> search fl r p [] i = None"
  by simp

declare search.simps [simp del]

lemma match_all_skip:
  assumes "rmatch fl r p (x # xs) [] = []"
  shows "set (match_all fl r (Some x) xs (Suc i)) \<subseteq> set (match_all fl r p (x # xs) i)"
proof (cases "search fl r (Some x) xs (Suc i)")
  case None
  then show ?thesis by (simp add: match_all.simps[of fl r "Some x" xs])
next
  case (Some m)
  then show ?thesis
    using search_Cons_no_match[OF assms, of i]
    by (auto simp: match_all.simps[of fl r "Some x" xs] match_all.simps[of fl r p "x # xs"]
             split: if_splits)
qed

section \<open>C5: a parameter for every path token\<close>

text \<open>A run of characters of a class, closed by a literal that is not in the class.\<close>

lemma star_class_then_lit:
  assumes "\<forall>c \<in> set name. char_matches fl (Cls neg items) c \<and> \<not> char_matches fl (Lit a) c"
      and "\<not> char_matches fl (Cls neg items) b"
      and "char_matches fl (Lit a) b"
  shows "concat (map (\<lambda>(p', xs', caps'). rmatch fl (Lit a) p' xs' (g xs' caps'))
            (rmatch fl (Star (Cls neg items)) p (name @ b # post) caps))
         = [(Some b, post, g (b # post) caps)]"
  using assms
  by (induction name arbitrary: p) (simp_all add: star_class_Cons)

lemma concat_map_map_state:
  "concat (map (\<lambda>(p', xs', caps'). F p' xs' caps') (map (\<lambda>(p', xs', caps'). (p', xs', G xs' caps')) sts))
   = concat (map (\<lambda>(p', xs', caps'). F p' xs' (G xs' caps')) sts)"
  by (induction sts) auto

lemma path_param_match:
  assumes "name \<noteq> []" and "CHR ''}'' \<notin> set name"
  shows "rmatch (Flags False False) path_param_re p (CHR ''{'' # name @ CHR ''}'' # post) []
         = [(Some CHR ''}'', post, [(1, name)])]"
proof -
  let ?fl = "Flags False False"
  let ?C = "Cls True [Ch CHR ''}'']"
  obtain c cs where name: "name = c # cs" using assms(1) by (cases name) auto
  have c: "char_matches ?fl ?C c"
    using assms(2) name by (auto simp: char_matches_def item_matches_def)
  have cm: "\<forall>x \<in> set cs. char_matches ?fl ?C x \<and> \<not> char_matches ?fl (Lit CHR ''}'') x"
    using assms(2) name by (auto simp: char_matches_def item_matches_def)
  have b: "\<not> char_matches ?fl ?C CHR ''}''" "char_matches ?fl (Lit CHR ''}'') CHR ''}''"
    by (auto simp: char_matches_def item_matches_def)
  have open_brace: "char_matches ?fl (Lit CHR ''{'') CHR ''{''"
    by (auto simp: char_matches_def item_matches_def)
  let ?ys = "c # cs @ CHR ''}'' # post"
  let ?g = "\<lambda>xs' caps'. (1::nat, take (length ?ys - length xs') ?ys) # caps'"
  have "rmatch ?fl path_param_re p (CHR ''{'' # name @ CHR ''}'' # post) []
        = concat (map (\<lambda>(p', xs', caps'). rmatch ?fl (Lit CHR ''}'') p' xs' (?g xs' caps'))
            (rmatch ?fl (Star ?C) (Some c) (cs @ CHR ''}'' # post) []))"
    unfolding path_param_re_def name
    by (simp add: Plus_def open_brace c comp_def split_def cong: list.case_cong if_cong)
  also have "\<dots> = [(Some CHR ''}'', post, ?g (CHR ''}'' # post) [])]"
    by (rule star_class_then_lit[OF cm b])
  finally show ?thesis by (simp add: name)
qed

lemma path_param_no_match:
  assumes "x \<noteq> CHR ''{''"
  shows "rmatch (Flags False False) path_param_re p (x # xs) [] = []"
  using assms
  by (auto simp: path_param_re_def char_matches_def item_matches_def)

lemma path_param_no_match_Nil:
  "rmatch (Flags False False) path_param_re p [] [] = []"
  by (simp add: path_param_re_def)

lemma strip_braces:
  "CHR ''{'' \<notin> set name \<Longrightarrow> CHR ''}'' \<notin> set name \<Longrightarrow>
   replace_chars ''{}'' [] (CHR ''{'' # name @ ''}'') = name"
  by (induction name) (auto simp: replace_chars_def)

text \<open>
  A \<open>{name}\<close> token of a path: a non-empty name without braces, between braces;
  \<open>token_at path pre name\<close> places it right after the prefix \<open>pre\<close> of the path.
\<close>

definition token_at :: "string \<Rightarrow> string \<Rightarrow> string \<Rightarrow> bool" where
  "token_at path pre name =
     (name \<noteq> [] \<and> CHR ''{'' \<notin> set name \<and> CHR ''}'' \<notin> set name \<and>
      take (length pre + length name + 2) path = pre @ CHR ''{'' # name @ ''}'')"

text \<open>
  No brace group is left open at the end of a prefix: every \<open>{\<close> in it is followed, within
  the prefix, by a \<open>}\<close> or by nothing but further \<open>{\<close>.
\<close>

fun no_open_group :: "string \<Rightarrow> bool" where
  "no_open_group [] = True"
| "no_open_group (c # cs) =
     ((c = CHR ''{'' \<longrightarrow> CHR ''}'' \<in> set cs \<or> list_all (\<lambda>x. x = CHR ''{'') cs) \<and>
      no_open_group cs)"

lemma token_atD:
  assumes "token_at path pre name"
  shows "\<exists>post. path = pre @ CHR ''{'' # name @ CHR ''}'' # post"
proof -
  let ?n = "length pre + length name + 2"
  from assms have "take ?n path = pre @ CHR ''{'' # name @ ''}''"
    by (simp add: token_at_def)
  then have "path = (pre @ CHR ''{'' # name @ ''}'') @ drop ?n path"
    using append_take_drop_id[of ?n path] by simp
  then show ?thesis by auto
qed

lemma no_open_group_append: "no_open_group (xs @ ys) \<Longrightarrow> no_open_group ys"
  by (induction xs) auto

lemma path_param_no_match_empty:
  "rmatch (Flags False False) path_param_re p (CHR ''{'' # CHR ''}'' # xs) [] = []"
  by (simp add: path_param_re_def Plus_def char_matches_def item_matches_def)

lemma replace_chars_append:
  "replace_chars cls by (xs @ ys) = replace_chars cls by xs @ replace_chars cls by ys"
  by (simp add: replace_chars_def)

lemma strip_brace_run:
  "list_all (\<lambda>x. x = CHR ''{'') xs \<Longrightarrow> replace_chars ''{}'' [] xs = []"
  by (induction xs) (auto simp: replace_chars_def)

lemma strip_braces_run:
  assumes "list_all (\<lambda>x. x = CHR ''{'') run"
      and "CHR ''{'' \<notin> set name" and "CHR ''}'' \<notin> set name"
  shows "replace_chars ''{}'' [] (CHR ''{'' # (run @ CHR ''{'' # name) @ ''}'') = name"
proof -
  have "CHR ''{'' # (run @ CHR ''{'' # name) @ ''}'' = (CHR ''{'' # run) @ (CHR ''{'' # name @ ''}'')"
    by simp
  then show ?thesis
    using strip_brace_run[of "CHR ''{'' # run"] assms strip_braces[OF assms(2,3)]
    by (simp only: replace_chars_append) simp
qed

text \<open>
  A \<open>{name}\<close> token somewhere in a path.
\<close>

definition brace_token :: "string \<Rightarrow> string \<Rightarrow> bool" where
  "brace_token path name =
     (name \<noteq> [] \<and> CHR ''{'' \<notin> set name \<and> CHR ''}'' \<notin> set name \<and>
      (\<exists>pre post. path = pre @ CHR ''{'' # name @ CHR ''}'' # post))"

lemma first_match_in:
  assumes "rmatch fl r p xs [] = (p', xs', caps) # sts"
  shows "\<exists>m \<in> set (match_all fl r p xs i). m_text m = take (length xs - length xs') xs"
  by (simp add: match_all.simps[of fl r p xs i] search_match[OF assms])

lemma first_match_text:
  assumes "rmatch fl r p (t @ xs') [] = (p', xs', caps) # sts"
  shows "\<exists>m \<in> set (match_all fl r p (t @ xs') i). m_text m = t"
  using first_match_in[OF assms, of i] by simp

lemma later_matches_in:
  assumes "rmatch fl r p xs [] = (p', xs', caps) # sts" and "length xs' < length xs"
  shows "\<exists>j. set (match_all fl r p' xs' j) \<subseteq> set (match_all fl r p xs i)"
  using assms(2)
  by (simp add: match_all.simps[of fl r p xs i] search_match[OF assms(1)]) blast

lemma free_token_matched:
  assumes "name \<noteq> []" and "CHR ''{'' \<notin> set name" and "CHR ''}'' \<notin> set name"
  shows "no_open_group pre \<Longrightarrow>
         \<exists>m \<in> set (match_all (Flags False False) path_param_re p
                     (pre @ CHR ''{'' # name @ CHR ''}'' # post) i).
            replace_chars ''{}'' [] (m_text m) = name"
proof (induction "length pre" arbitrary: pre p i rule: less_induct)
  case less
  let ?fl = "Flags False False"
  let ?tok = "CHR ''{'' # name @ CHR ''}'' # post"
  show ?case
  proof (cases pre)
    case Nil
    have "rmatch ?fl path_param_re p ((CHR ''{'' # name @ ''}'') @ post) []
          = [(Some CHR ''}'', post, [(1, name)])]"
      using path_param_match[OF assms(1,3), of p post] by simp
    from first_match_text[OF this, of i]
    obtain m where m: "m \<in> set (match_all ?fl path_param_re p ?tok i)"
      "m_text m = CHR ''{'' # name @ ''}''"
      by auto
    from m(2) strip_braces[OF assms(2,3)] have "replace_chars ''{}'' [] (m_text m) = name"
      by simp
    with m(1) show ?thesis unfolding Nil by (intro bexI[of _ m]) simp_all
  next
    case (Cons x pre')
    show ?thesis
    proof (cases "x = CHR ''{''")
      case False
      from less.prems Cons have "no_open_group pre'" by simp
      with less.hyps[of pre' "Some x" "Suc i"] Cons
      obtain m where "m \<in> set (match_all ?fl path_param_re (Some x) (pre' @ ?tok) (Suc i))"
        "replace_chars ''{}'' [] (m_text m) = name"
        by auto
      moreover have "rmatch ?fl path_param_re p (x # pre' @ ?tok) [] = []"
        by (rule path_param_no_match[OF False])
      from match_all_skip[OF this, of i]
      have "set (match_all ?fl path_param_re (Some x) (pre' @ ?tok) (Suc i))
            \<subseteq> set (match_all ?fl path_param_re p (pre @ ?tok) i)"
        by (simp add: Cons)
      ultimately show ?thesis by blast
    next
      case True
      show ?thesis
      proof (cases "CHR ''}'' \<in> set pre'")
        case False
        with less.prems Cons True have run: "list_all (\<lambda>x. x = CHR ''{'') pre'" by simp
        let ?nm = "pre' @ CHR ''{'' # name"
        have nm: "?nm \<noteq> []" "CHR ''}'' \<notin> set ?nm" using False assms(3) by auto
        have xs: "pre @ ?tok = CHR ''{'' # ?nm @ CHR ''}'' # post"
          using Cons True by simp
        have "rmatch ?fl path_param_re p ((CHR ''{'' # ?nm @ ''}'') @ post) []
              = [(Some CHR ''}'', post, [(1, ?nm)])]"
          using path_param_match[OF nm, of p post] by simp
        from first_match_text[OF this, of i]
        obtain m where m: "m \<in> set (match_all ?fl path_param_re p (pre @ ?tok) i)"
          "m_text m = CHR ''{'' # ?nm @ ''}''"
          by (auto simp: xs)
        from m(2) strip_braces_run[OF run assms(2,3)]
        have "replace_chars ''{}'' [] (m_text m) = name" by simp
        with m(1) show ?thesis by (intro bexI[of _ m]) simp_all
      next
        case closed: True
        from split_list_first[OF closed] obtain nm rest where
          pre': "pre' = nm @ CHR ''}'' # rest" and nm: "CHR ''}'' \<notin> set nm"
          by blast
        show ?thesis
        proof (cases "nm = []")
          case True
          from less.prems Cons have "no_open_group pre'" by simp
          with less.hyps[of pre' "Some x" "Suc i"] Cons
          obtain m where "m \<in> set (match_all ?fl path_param_re (Some x) (pre' @ ?tok) (Suc i))"
            "replace_chars ''{}'' [] (m_text m) = name"
            by auto
          moreover have "rmatch ?fl path_param_re p (x # pre' @ ?tok) [] = []"
            using path_param_no_match_empty[of p "rest @ ?tok"] True pre' \<open>x = CHR ''{''\<close>
            by simp
          from match_all_skip[OF this, of i]
          have "set (match_all ?fl path_param_re (Some x) (pre' @ ?tok) (Suc i))
                \<subseteq> set (match_all ?fl path_param_re p (pre @ ?tok) i)"
            by (simp add: Cons)
          ultimately show ?thesis by blast
        next
          case False
          have xs: "pre @ ?tok = CHR ''{'' # nm @ CHR ''}'' # (rest @ ?tok)"
            using Cons \<open>x = CHR ''{''\<close> pre' by simp
          from later_matches_in[OF path_param_match[OF False nm, of p "rest @ ?tok"], of i]
          obtain j where
            sub: "set (match_all ?fl path_param_re (Some CHR ''}'') (rest @ ?tok) j)
                  \<subseteq> set (match_all ?fl path_param_re p (pre @ ?tok) i)"
            unfolding xs by auto
          from less.prems Cons pre' have "no_open_group rest"
            using no_open_group_append[of "x # nm @ ''}''" rest] by simp
          moreover have "length rest < length pre" using Cons pre' by simp
          ultimately obtain m where
            "m \<in> set (match_all ?fl path_param_re (Some CHR ''}'') (rest @ ?tok) j)"
            "replace_chars ''{}'' [] (m_text m) = name"
            using less.hyps[of rest "Some CHR ''}''" j] by auto
          with sub show ?thesis by blast
        qed
      qed
    qed
  qed
qed

lemma params_cover_tokens:
  assumes "token_at path pre name" and "no_open_group pre"
  shows "\<exists>q \<in> set (extractParamsFromContext path ctx).
           param_name q = JStr name \<and> param_in q = JStr ''path'' \<and>
           param_required q = True \<and> param_type q = JStr ''string''"
proof -
  from token_atD[OF assms(1)] obtain post where
    path: "path = pre @ CHR ''{'' # name @ CHR ''}'' # post" ..
  from assms(1) have n: "name \<noteq> []" "CHR ''{'' \<notin> set name" "CHR ''}'' \<notin> set name"
    by (auto simp: token_at_def)
  from free_token_matched[OF n assms(2), of None post 0] obtain m where
    m: "m \<in> set (re_exec_all (Flags False False) path_param_re path)"
       "replace_chars ''{}'' [] (m_text m) = name"
    by (auto simp: re_exec_all_def path)
  then show ?thesis
    unfolding extractParamsFromContext_def
    by (auto simp: Let_def intro!: bexI[of _ m])
qed

text \<open>
  What is assumed of the platform's URL parser: the path name it returns holds no
  \<open>{\<close> (a WHATWG parser percent-encodes braces in a path).
\<close>

definition pathnames_without_braces :: "platform \<Rightarrow> bool" where
  "pathnames_without_braces P = (\<forall>u p. URL_pathname P u = Some p \<longrightarrow> CHR ''{'' \<notin> set p)"

definition params_from_path :: "platform \<Rightarrow> Endpoint \<Rightarrow> bool" where
  "params_from_path P ep =
     ((\<exists>context. parameters ep = extractParamsFromContext (ep_path ep) context) \<or>
      (parameters ep = [] \<and> (\<exists>u. URL_pathname P u = Some (ep_path ep))))"

lemma pattern_step_params:
  "list_all (params_from_path P) (fst st) \<Longrightarrow> list_all (params_from_path P) (fst (pattern_step s st m))"
  by (cases st) (auto simp: pattern_step_def Let_def params_from_path_def)

lemma curl_step_params:
  "list_all (params_from_path P) (fst st) \<Longrightarrow> list_all (params_from_path P) (fst (curl_step P st m))"
  by (cases st) (auto simp: curl_step_def Let_def params_from_path_def split: option.splits)

lemma pattern_pass_params: "list_all (params_from_path P) (fst (pattern_pass s))"
  unfolding pattern_pass_def
proof (rule foldl_invariant[where I = "\<lambda>st. list_all (params_from_path P) (fst st)"])
  show "list_all (params_from_path P) (fst ([], []))" by simp
next
  fix st :: "Endpoint list \<times> string list" and pattern
  assume "list_all (params_from_path P) (fst st)"
  then show "list_all (params_from_path P)
               (fst (foldl (pattern_step s) st (re_exec_all (Flags True False) pattern s)))"
    by (rule foldl_invariant[where I = "\<lambda>st. list_all (params_from_path P) (fst st)"])
       (rule pattern_step_params)
qed

lemma extractEndpoints_text_params: "list_all (params_from_path P) (extractEndpoints_text P s)"
  unfolding extractEndpoints_text_def
  using pattern_pass_params
  by (rule foldl_invariant[where I = "\<lambda>st. list_all (params_from_path P) (fst st)"])
     (rule curl_step_params)

text \<open>
  C5 (amended). For every text and every endpoint the text normalizer extracts from it,
  every \<open>{name}\<close> token of the endpoint's path that does not lie inside a brace group
  left open before it has a parameter with that name, \<open>in\<close> \<open>path\<close>, required, of
  type \<open>string\<close>. A token lies inside an open group when some \<open>{\<close> before it is
  followed, up to the token, by no \<open>}\<close> and by a character other than \<open>{\<close>. Braces
  elsewhere in the path (an empty \<open>{}\<close>, a \<open>{\<close> after the token) do not matter. (An
  endpoint mined from a \<open>curl\<close> example has no parameters and, by the assumption on
  the URL parser, no token in its path.)
\<close>

theorem path_tokens_have_parameters:
  assumes "pathnames_without_braces P"
      and "ep \<in> set (endpoints (spec (parseTextDocs P s)))"
      and "token_at (ep_path ep) pre name"
      and "no_open_group pre"
  shows "\<exists>q \<in> set (parameters ep).
           param_name q = JStr name \<and> param_in q = JStr ''path'' \<and>
           param_required q = True \<and> param_type q = JStr ''string''"
proof -
  from assms(2) extractEndpoints_text_params[of P s] have "params_from_path P ep"
    by (simp add: parseTextDocs_endpoints list_all_iff)
  then show ?thesis
    unfolding params_from_path_def
  proof
    assume "\<exists>context. parameters ep = extractParamsFromContext (ep_path ep) context"
    then obtain ctx where "parameters ep = extractParamsFromContext (ep_path ep) ctx" ..
    with params_cover_tokens[OF assms(3,4), of ctx] show ?thesis by simp
  next
    assume "parameters ep = [] \<and> (\<exists>u. URL_pathname P u = Some (ep_path ep))"
    with assms(1) have "CHR ''{'' \<notin> set (ep_path ep)"
      by (auto simp: pathnames_without_braces_def)
    with token_atD[OF assms(3)] show ?thesis by auto
  qed
qed

lemma simple_pathname_no_brace: "pathnames_without_braces example_platform"
  by (auto simp: pathnames_without_braces_def example_platform_def simple_pathname_def Let_def
                 encode_brace_def split: option.splits if_splits)

lemma no_open_group_examples:
  "no_open_group ''/a/'' \<and> no_open_group ''/a/{}/'' \<and> no_open_group ''/repos/{owner}/'' \<and>
   no_open_group ''/a/{'' \<and> \<not> no_open_group ''/a/{x''"
  by simp

text \<open>
  An empty \<open>{}\<close> before a token, a doubled \<open>{\<close> and a \<open>{\<close> after the token leave
  the token its parameter.
\<close>

lemma brace_edge_examples:
  "map param_name (extractParamsFromContext ''/a/{}/{id}'' []) = [JStr ''id''] \<and>
   map param_name (extractParamsFromContext ''/a/{{id}'' []) = [JStr ''id''] \<and>
   map param_name (extractParamsFromContext ''/a/{id}/{'' []) = [JStr ''id'']"
  by code_simp

lemma dangling_brace_example:
  "map (\<lambda>e. (ep_path e, map param_name (parameters e)))
     (extractEndpoints_text example_platform ''GET /r/{owner}/c/{+p}'')
   = [(''/r/{owner}/c/{'', [JStr ''owner''])]"
  by code_simp

text \<open>
  The text \<open>GET /r/{owner}/c/{+p}\<close>: the path pattern stops at \<open>+\<close>, the path is
  \<open>/r/{owner}/c/{\<close> with a \<open>{\<close> that opens nothing, and the token
  \<open>{owner}\<close> has its parameter.
\<close>

theorem path_tokens_have_parameters_witness:
  "\<exists>ep. ep \<in> set (endpoints (spec (parseTextDocs example_platform ''GET /r/{owner}/c/{+p}''))) \<and>
      pathnames_without_braces example_platform \<and>
      ep_path ep = ''/r/{owner}/c/{'' \<and>
      token_at (ep_path ep) ''/r/'' ''owner'' \<and> no_open_group ''/r/'' \<and>
      (\<exists>q \<in> set (parameters ep).
          param_name q = JStr ''owner'' \<and> param_in q = JStr ''path'' \<and>
          param_required q = True \<and> param_type q = JStr ''string'')"
proof -
  let ?s = "''GET /r/{owner}/c/{+p}''"
  from dangling_brace_example obtain ep where
    ep: "ep \<in> set (endpoints (spec (parseTextDocs example_platform ?s)))"
        "ep_path ep = ''/r/{owner}/c/{''"
    unfolding parseTextDocs_endpoints
    by (cases "extractEndpoints_text example_platform ?s") auto
  have tok: "token_at (ep_path ep) ''/r/'' ''owner''"
    unfolding ep(2) by (simp add: token_at_def)
  have wf: "no_open_group ''/r/''" by simp
  from path_tokens_have_parameters[OF simple_pathname_no_brace ep(1) tok wf]
       ep simple_pathname_no_brace wf tok
  show ?thesis by blast
qed

lemma nested_brace_example:
  "map (\<lambda>e. (ep_path e, map param_name (parameters e)))
     (extractEndpoints_text example_platform ''GET /a/{x{y}'')
   = [(''/a/{x{y}'', [JStr ''xy''])]"
  by code_simp

text \<open>
  Without the condition on the braces the property fails: in the path \<open>/a/{x{y}\<close> the
  expression \<open>\{([^}]+)\}\<close> matches \<open>{x{y}\<close>, whose name with the braces removed
  is \<open>xy\<close>, and the token \<open>{y}\<close> has no parameter.
\<close>

theorem path_tokens_counterexample:
  "\<exists>ep. ep \<in> set (endpoints (spec (parseTextDocs example_platform ''GET /a/{x{y}''))) \<and>
      brace_token (ep_path ep) ''y'' \<and>
      \<not> (\<exists>q \<in> set (parameters ep). param_name q = JStr ''y'')"
proof -
  let ?s = "''GET /a/{x{y}''"
  from nested_brace_example obtain ep where
    ep: "ep \<in> set (endpoints (spec (parseTextDocs example_platform ?s)))"
        "ep_path ep = ''/a/{x{y}''" "map param_name (parameters ep) = [JStr ''xy'']"
    unfolding parseTextDocs_endpoints
    by (cases "extractEndpoints_text example_platform ?s") auto
  have "''/a/{x{y}'' = ''/a/{x'' @ CHR ''{'' # ''y'' @ CHR ''}'' # []" by simp
  then have "\<exists>pre post. ''/a/{x{y}'' = pre @ CHR ''{'' # ''y'' @ CHR ''}'' # post" by blast
  then have tok: "brace_token (ep_path ep) ''y''"
    unfolding ep(2) brace_token_def by simp
  from ep(3) have "\<not> (\<exists>q \<in> set (parameters ep). param_name q = JStr ''y'')"
    by (cases "parameters ep") auto
  with ep(1) tok show ?thesis by blast
qed

text \<open>The token \<open>{y}\<close> of that path lies inside the group opened by \<open>{x\<close>.\<close>

lemma nested_brace_token_enclosed:
  "token_at ''/a/{x{y}'' ''/a/{x'' ''y'' \<and> \<not> no_open_group ''/a/{x''"
  by (simp add: token_at_def)


section \<open>The strings a pattern can match\<close>

text \<open>Kleene star of a set of strings.\<close>

inductive_set star :: "string set \<Rightarrow> string set" for A :: "string set" where
  star_Nil: "[] \<in> star A"
| star_step: "a \<in> A \<Longrightarrow> w \<in> star A \<Longrightarrow> a @ w \<in> star A"

text \<open>The strings a regular expression can match (assertions match the empty string).\<close>

fun lang :: "flags \<Rightarrow> regex \<Rightarrow> string set" where
  "lang fl (Lit a) = {[c] | c. char_matches fl (Lit a) c}"
| "lang fl AnyChar = {[c] | c. char_matches fl AnyChar c}"
| "lang fl (Cls neg items) = {[c] | c. char_matches fl (Cls neg items) c}"
| "lang fl (Seq r1 r2) = {t1 @ t2 | t1 t2. t1 \<in> lang fl r1 \<and> t2 \<in> lang fl r2}"
| "lang fl (Alt r1 r2) = lang fl r1 \<union> lang fl r2"
| "lang fl (Star r) = star (lang fl r)"
| "lang fl (Opt r) = insert [] (lang fl r)"
| "lang fl (Group n r) = lang fl r"
| "lang fl Bol = {[]}"
| "lang fl Eol = {[]}"
| "lang fl WordB = {[]}"
| "lang fl Eps = {[]}"

text \<open>Every success of the matcher consumes a string of the pattern's language.\<close>

lemma rmatch_sound:
  "(p', rest, caps') \<in> set (rmatch fl r p ys caps) \<Longrightarrow> \<exists>t. ys = t @ rest \<and> t \<in> lang fl r"
proof (induction fl r p ys caps arbitrary: p' rest caps' rule: rmatch.induct)
  case (1 fl a p xs caps)
  then show ?case by (auto split: list.splits if_splits)
next
  case (2 fl p xs caps)
  then show ?case by (auto split: list.splits if_splits)
next
  case (3 fl neg items p xs caps)
  then show ?case by (auto split: list.splits if_splits)
next
  case (4 fl r1 r2 p xs caps)
  from "4.prems" obtain p1 xs1 caps1 where
    s1: "(p1, xs1, caps1) \<in> set (rmatch fl r1 p xs caps)"
    and s2: "(p', rest, caps') \<in> set (rmatch fl r2 p1 xs1 caps1)"
    by auto
  from "4.IH"(1)[OF s1] obtain t1 where t1: "xs = t1 @ xs1" "t1 \<in> lang fl r1" by blast
  from "4.IH"(2)[OF s1 refl refl s2] obtain t2 where t2: "xs1 = t2 @ rest" "t2 \<in> lang fl r2" by blast
  from t1 t2 have "xs = (t1 @ t2) @ rest" "t1 @ t2 \<in> lang fl (Seq r1 r2)" by auto
  then show ?case by blast
next
  case (5 fl r1 r2 p xs caps)
  from "5.prems" have "(p', rest, caps') \<in> set (rmatch fl r1 p xs caps) \<or>
                       (p', rest, caps') \<in> set (rmatch fl r2 p xs caps)"
    by auto
  then show ?case
  proof
    assume a: "(p', rest, caps') \<in> set (rmatch fl r1 p xs caps)"
    from "5.IH"(1)[OF a] obtain t where "xs = t @ rest" "t \<in> lang fl r1" by blast
    then have "xs = t @ rest \<and> t \<in> lang fl (Alt r1 r2)" by simp
    then show ?thesis by blast
  next
    assume a: "(p', rest, caps') \<in> set (rmatch fl r2 p xs caps)"
    from "5.IH"(2)[OF a] obtain t where "xs = t @ rest" "t \<in> lang fl r2" by blast
    then have "xs = t @ rest \<and> t \<in> lang fl (Alt r1 r2)" by simp
    then show ?thesis by blast
  qed
next
  case (6 fl r p xs caps)
  from "6.prems"[unfolded rmatch_Star[of fl r p xs caps]] have
    "(p', rest, caps') = (p, xs, caps) \<or>
     (\<exists>p1 xs1 caps1. (p1, xs1, caps1) \<in> set (rmatch fl r p xs caps) \<and> length xs1 < length xs \<and>
        (p', rest, caps') \<in> set (rmatch fl (Star r) p1 xs1 caps1))"
    by (auto split: if_splits)
  then show ?case
  proof
    assume "(p', rest, caps') = (p, xs, caps)"
    then have "xs = [] @ rest" "[] \<in> lang fl (Star r)" by (auto intro: star_Nil)
    then show ?thesis by blast
  next
    assume "\<exists>p1 xs1 caps1. (p1, xs1, caps1) \<in> set (rmatch fl r p xs caps) \<and> length xs1 < length xs \<and>
        (p', rest, caps') \<in> set (rmatch fl (Star r) p1 xs1 caps1)"
    then obtain p1 xs1 caps1 where s1: "(p1, xs1, caps1) \<in> set (rmatch fl r p xs caps)"
      and l: "length xs1 < length xs"
      and s2: "(p', rest, caps') \<in> set (rmatch fl (Star r) p1 xs1 caps1)"
      by blast
    from "6.IH"(1)[OF s1] obtain t1 where t1: "xs = t1 @ xs1" "t1 \<in> lang fl r" by blast
    from "6.IH"(2)[OF s1 refl refl l s2] obtain t2 where t2: "xs1 = t2 @ rest" "t2 \<in> star (lang fl r)"
      by auto
    from t1 t2 have "xs = (t1 @ t2) @ rest" "t1 @ t2 \<in> lang fl (Star r)"
      by (auto intro: star_step)
    then show ?thesis by blast
  qed
next
  case (7 fl r p xs caps)
  from "7.prems" have "(p', rest, caps') \<in> set (rmatch fl r p xs caps) \<or>
                       (p', rest, caps') = (p, xs, caps)"
    by auto
  then show ?case
  proof
    assume a: "(p', rest, caps') \<in> set (rmatch fl r p xs caps)"
    from "7.IH"[OF a] obtain t where "xs = t @ rest" "t \<in> lang fl r" by blast
    then have "xs = t @ rest \<and> t \<in> lang fl (Opt r)" by simp
    then show ?thesis by blast
  next
    assume "(p', rest, caps') = (p, xs, caps)"
    then have "xs = [] @ rest \<and> [] \<in> lang fl (Opt r)" by simp
    then show ?thesis by blast
  qed
next
  case (8 fl n r p xs caps)
  from "8.prems" obtain c where "(p', rest, c) \<in> set (rmatch fl r p xs caps)"
    by auto
  from "8.IH"[OF this] obtain t where "xs = t @ rest" "t \<in> lang fl r" by blast
  then have "xs = t @ rest \<and> t \<in> lang fl (Group n r)" by simp
  then show ?case by blast
next
  case (9 fl p xs caps)
  then show ?case by (auto split: option.splits if_splits)
next
  case (10 fl p xs caps)
  then show ?case by (auto split: list.splits if_splits)
next
  case (11 fl p xs caps)
  then show ?case by (auto split: if_splits)
next
  case (12 fl p xs caps)
  then show ?case by auto
qed

lemma search_SomeD:
  "search fl r p xs i = Some m \<Longrightarrow>
   \<exists>p0 pre ys sts. xs = pre @ ys \<and> m_index m = i + length pre \<and>
      rmatch fl r p0 ys [] = (m_prev m, m_rest m, m_groups m) # sts \<and>
      m_text m = take (length ys - length (m_rest m)) ys"
proof (induction xs arbitrary: p i)
  case Nil
  show ?case
  proof (cases "rmatch fl r p [] []")
    case Nil
    with \<open>search fl r p [] i = Some m\<close> show ?thesis
      by (simp add: search_Nil_no_match)
  next
    case (Cons st sts)
    obtain p' xs' caps where st: "st = (p', xs', caps)" by (cases st)
    from search_match[of fl r p "[]" p' xs' caps sts i] Cons st \<open>search fl r p [] i = Some m\<close>
    have m: "m = \<lparr>m_index = i, m_text = [], m_groups = caps, m_prev = p', m_rest = xs'\<rparr>"
      by simp
    then have "[] = [] @ ([]::string) \<and> m_index m = i + length ([]::string) \<and>
      rmatch fl r p [] [] = (m_prev m, m_rest m, m_groups m) # sts \<and>
      m_text m = take (length ([]::string) - length (m_rest m)) []"
      using Cons st by simp
    then show ?thesis by blast
  qed
next
  case (Cons x xs)
  show ?case
  proof (cases "rmatch fl r p (x # xs) []")
    case Nil
    with Cons.prems have "search fl r (Some x) xs (Suc i) = Some m"
      by (simp add: search_Cons_no_match)
    from Cons.IH[OF this] obtain p0 pre ys sts where
      "xs = pre @ ys" "m_index m = Suc i + length pre"
      "rmatch fl r p0 ys [] = (m_prev m, m_rest m, m_groups m) # sts"
      "m_text m = take (length ys - length (m_rest m)) ys"
      by blast
    then have "x # xs = (x # pre) @ ys \<and> m_index m = i + length (x # pre) \<and>
      rmatch fl r p0 ys [] = (m_prev m, m_rest m, m_groups m) # sts \<and>
      m_text m = take (length ys - length (m_rest m)) ys"
      by simp
    then show ?thesis by blast
  next
    case (Cons st sts)
    obtain p' xs' caps where st: "st = (p', xs', caps)" by (cases st)
    from search_match[of fl r p "x # xs" p' xs' caps sts i] Cons st Cons.prems
    have m: "m = \<lparr>m_index = i, m_text = take (length (x # xs) - length xs') (x # xs),
                     m_groups = caps, m_prev = p', m_rest = xs'\<rparr>"
      by simp
    then have "x # xs = [] @ (x # xs) \<and> m_index m = i + length ([]::string) \<and>
      rmatch fl r p (x # xs) [] = (m_prev m, m_rest m, m_groups m) # sts \<and>
      m_text m = take (length (x # xs) - length (m_rest m)) (x # xs)"
      using Cons st by simp
    then show ?thesis by blast
  qed
qed

lemma search_weaken:
  assumes "\<And>p ys. rmatch fl r1 p ys [] \<noteq> [] \<Longrightarrow> rmatch fl r2 p ys [] \<noteq> []"
  shows "search fl r1 p xs i \<noteq> None \<Longrightarrow> search fl r2 p xs i \<noteq> None"
proof (induction xs arbitrary: p i)
  case Nil
  then have "rmatch fl r1 p [] [] \<noteq> []"
    by (auto simp: search_Nil_no_match)
  from assms[OF this] obtain st sts where "rmatch fl r2 p [] [] = st # sts"
    by (cases "rmatch fl r2 p [] []") auto
  then show ?case
    by (cases st) (simp add: search_match)
next
  case (Cons x xs)
  show ?case
  proof (cases "rmatch fl r2 p (x # xs) []")
    case (Cons st sts)
    then show ?thesis by (cases st) (simp add: search_match)
  next
    case Nil
    with assms have n1: "rmatch fl r1 p (x # xs) [] = []" by blast
    with Cons.prems have "search fl r1 (Some x) xs (Suc i) \<noteq> None"
      by (simp add: search_Cons_no_match)
    from Cons.IH[OF this] Nil show ?thesis
      by (simp add: search_Cons_no_match)
  qed
qed

definition is_upper :: "char \<Rightarrow> bool" where
  "is_upper c = ((65::nat) \<le> of_char c \<and> of_char c \<le> (90::nat))"

lemma lower_char_of_match:
  assumes "char_matches (Flags True ml) (Lit a) c" and "\<not> is_upper a"
  shows "lower_char c = a"
proof -
  define n :: nat where "n = of_char c"
  from assms(1) have "a = lower_char c \<or> a = upper_char c"
    by (simp add: char_matches_def item_matches_def)
  then show ?thesis
  proof
    assume "a = lower_char c" then show ?thesis by simp
  next
    assume u: "a = upper_char c"
    show ?thesis
    proof (cases "97 \<le> n \<and> n \<le> 122")
      case True
      then have "(n - 32) mod 256 = n - 32" by (intro mod_less) arith
      with True u have "(of_char a :: nat) = n - 32"
        by (simp add: upper_char_def n_def)
      moreover from True have "65 \<le> n - 32 \<and> n - 32 \<le> 90" by arith
      ultimately have "is_upper a" by (simp add: is_upper_def)
      with assms(2) show ?thesis by simp
    next
      case False
      then have "upper_char c = c" by (auto simp: upper_char_def n_def)
      with u have "a = c" by simp
      with assms(2) show ?thesis by (auto simp: lower_char_def is_upper_def)
    qed
  qed
qed

lemma lang_lits:
  "t \<in> lang fl (lits w) \<Longrightarrow> list_all2 (\<lambda>a c. char_matches fl (Lit a) c) w t"
  by (induction w arbitrary: t rule: lits.induct) auto

lemma lang_lits_lower:
  assumes "t \<in> lang (Flags True ml) (lits w)" and "\<forall>a \<in> set w. \<not> is_upper a"
  shows "toLowerCase t = w"
proof -
  from lang_lits[OF assms(1)] assms(2) show ?thesis
    unfolding toLowerCase_def
    by (induction rule: list_all2_induct) (auto dest: lower_char_of_match)
qed

section \<open>C4: the header name of an API-key scheme found in text\<close>

text \<open>The two tests of \<^verbatim>\<open>extractAuth\<close> that select the bearer branch, and the two that select
  the apiKey branch.\<close>

definition bearer_cue :: "string \<Rightarrow> bool" where
  "bearer_cue s = (re_test (Flags True False) bearer_token_re s \<or>
                   re_test (Flags True False) authorization_bearer_re s)"

definition api_key_cue :: "string \<Rightarrow> bool" where
  "api_key_cue s = (re_test (Flags True False) api_key_re s \<or>
                    re_test (Flags True False) x_api_key_re s)"

lemma parseTextDocs_auth: "auth (spec (parseTextDocs P s)) = fst (extractAuth_text s [])"
  by (simp add: parseTextDocs_def Let_def split: prod.splits)

lemma separator_class:
  assumes "char_matches (Flags True ml) (Cls False [Ch CHR ''_'', Ch CHR ''-'']) c"
  shows "lower_char c = CHR ''_'' \<or> lower_char c = CHR ''-''"
proof -
  from assms have "char_matches (Flags True ml) (Lit CHR ''_'') c \<or>
                   char_matches (Flags True ml) (Lit CHR ''-'') c"
    by (auto simp: char_matches_def)
  then show ?thesis
    by (auto dest!: lower_char_of_match simp: is_upper_def)
qed

lemma header_re_lang:
  assumes "t \<in> lang (Flags True False) header_re"
  shows "toLowerCase t \<in> {''x-api-key'', ''api_key'', ''api-key'', ''apikey''}"
proof -
  from assms have "t \<in> lang (Flags True False) (lits ''x-api-key'') \<or>
                   t \<in> lang (Flags True False) api_key_re"
    by (simp add: header_re_def x_api_key_re_def)
  then show ?thesis
  proof
    assume "t \<in> lang (Flags True False) (lits ''x-api-key'')"
    then have "toLowerCase t = ''x-api-key''"
      by (rule lang_lits_lower) (simp add: is_upper_def)
    then show ?thesis by simp
  next
    assume "t \<in> lang (Flags True False) api_key_re"
    then have "\<exists>t1 t2 t3. t = t1 @ t2 @ t3 \<and>
        t1 \<in> lang (Flags True False) (lits ''api'') \<and>
        (t2 = [] \<or> (\<exists>c. t2 = [c] \<and>
           char_matches (Flags True False) (Cls False [Ch CHR ''_'', Ch CHR ''-'']) c)) \<and>
        t3 \<in> lang (Flags True False) (lits ''key'')"
      unfolding api_key_re_def by (simp del: lits.simps) blast
    then obtain t1 t2 t3 where t: "t = t1 @ t2 @ t3"
      and t1: "t1 \<in> lang (Flags True False) (lits ''api'')"
      and t2: "t2 = [] \<or> (\<exists>c. t2 = [c] \<and>
                 char_matches (Flags True False) (Cls False [Ch CHR ''_'', Ch CHR ''-'']) c)"
      and t3: "t3 \<in> lang (Flags True False) (lits ''key'')"
      by blast
    from t1 have l1: "toLowerCase t1 = ''api''"
      by (rule lang_lits_lower) (simp add: is_upper_def)
    from t3 have l3: "toLowerCase t3 = ''key''"
      by (rule lang_lits_lower) (simp add: is_upper_def)
    from t2 have "toLowerCase t2 = [] \<or> toLowerCase t2 = ''_'' \<or> toLowerCase t2 = ''-''"
      by (auto simp: toLowerCase_def dest: separator_class)
    with l1 l3 t show ?thesis
      by (auto simp: toLowerCase_def)
  qed
qed

lemma header_re_covers_cues:
  "rmatch fl api_key_re p ys [] \<noteq> [] \<or> rmatch fl x_api_key_re p ys [] \<noteq> []
   \<Longrightarrow> rmatch fl header_re p ys [] \<noteq> []"
  by (auto simp: header_re_def)

lemma api_key_cue_header_match:
  assumes "api_key_cue s"
  shows "re_match (Flags True False) header_re s \<noteq> None"
proof -
  from assms have "search (Flags True False) api_key_re None s 0 \<noteq> None \<or>
                   search (Flags True False) x_api_key_re None s 0 \<noteq> None"
    by (simp add: api_key_cue_def re_test_def re_match_def)
  then show ?thesis
  proof
    assume "search (Flags True False) api_key_re None s 0 \<noteq> None"
    then have "search (Flags True False) header_re None s 0 \<noteq> None"
      by (rule search_weaken[rotated]) (simp add: header_re_covers_cues)
    then show ?thesis by (simp add: re_match_def)
  next
    assume "search (Flags True False) x_api_key_re None s 0 \<noteq> None"
    then have "search (Flags True False) header_re None s 0 \<noteq> None"
      by (rule search_weaken[rotated]) (simp add: header_re_covers_cues)
    then show ?thesis by (simp add: re_match_def)
  qed
qed

lemma header_match_text:
  assumes "re_match (Flags True False) header_re s = Some m"
  shows "group m 1 = m_text m \<and>
         toLowerCase (m_text m) \<in> {''x-api-key'', ''api_key'', ''api-key'', ''apikey''} \<and>
         take (length (m_text m)) (drop (m_index m) s) = m_text m"
proof -
  let ?fl = "Flags True False"
  from search_SomeD[OF assms[unfolded re_match_def]] obtain p0 pre ys sts where
    s: "s = pre @ ys" and i: "m_index m = length pre"
    and r: "rmatch ?fl header_re p0 ys [] = (m_prev m, m_rest m, m_groups m) # sts"
    and t: "m_text m = take (length ys - length (m_rest m)) ys"
    by auto
  from r have mem: "(m_prev m, m_rest m, m_groups m) \<in> set (rmatch ?fl header_re p0 ys [])"
    by simp
  from rmatch_sound[OF mem] obtain u where u: "ys = u @ m_rest m" "u \<in> lang ?fl header_re"
    by blast
  with t have tu: "m_text m = u" by simp
  from mem obtain caps' where "m_groups m = (1, take (length ys - length (m_rest m)) ys) # caps'"
    by (auto simp: header_re_def)
  with t have g: "group m 1 = m_text m" by (simp add: group_def)
  from s i u tu have "take (length (m_text m)) (drop (m_index m) s) = m_text m" by simp
  with g header_re_lang[OF u(2)] tu show ?thesis by simp
qed

text \<open>C4 (amended). For every text input with an api-key cue
  (\<^verbatim>\<open>/api[_-]?key/i\<close> or \<^verbatim>\<open>/x-api-key/i\<close> matches) and no bearer cue, the text normalizer
  returns an apiKey scheme whose headerName is the text of the leftmost match of
  \<^verbatim>\<open>/(x-api-key|api[_-]?key)/i\<close> in the input, exactly as written there: a
  substring of the input that lower-cases to x-api-key, api_key, api-key or apikey. This
  also holds when the match is the generic api_key phrase; the default
  \<^verbatim>\<open>'X-API-Key'\<close> of the source is never taken, because the header pattern matches
  wherever a cue does and its match is never empty.\<close>

theorem api_key_header_is_matched_text:
  assumes "api_key_cue s" and "\<not> bearer_cue s"
  shows "\<exists>m. re_match (Flags True False) header_re s = Some m \<and>
             auth_type (auth (spec (parseTextDocs P s))) = apiKey \<and>
             headerName (auth (spec (parseTextDocs P s))) = JStr (m_text m) \<and>
             take (length (m_text m)) (drop (m_index m) s) = m_text m \<and>
             toLowerCase (m_text m) \<in> {''x-api-key'', ''api_key'', ''api-key'', ''apikey''}"
proof -
  from api_key_cue_header_match[OF assms(1)] obtain m where
    m: "re_match (Flags True False) header_re s = Some m" by auto
  from header_match_text[OF m] have g: "group m 1 = m_text m"
    and l: "toLowerCase (m_text m) \<in> {''x-api-key'', ''api_key'', ''api-key'', ''apikey''}"
    and sub: "take (length (m_text m)) (drop (m_index m) s) = m_text m"
    by simp_all
  from l have ne: "m_text m \<noteq> []" by (auto simp: toLowerCase_def)
  from assms m g ne have "auth_type (fst (extractAuth_text s [])) = apiKey"
    "headerName (fst (extractAuth_text s [])) = JStr (m_text m)"
    by (simp_all add: extractAuth_text_def Let_def api_key_cue_def bearer_cue_def noAuth_def)
  with m l sub show ?thesis by (simp add: parseTextDocs_auth)
qed

text \<open>The input \<^verbatim>\<open>Send your api_key\<close> holds the generic phrase and no
  \<^verbatim>\<open>x-api-key\<close>; its header name is \<^verbatim>\<open>api_key\<close>, not \<^verbatim>\<open>X-API-Key\<close>.\<close>

lemma generic_phrase_example:
  "extractAuth_text ''Send your api_key'' []
   = (\<lparr>auth_type = apiKey, headerName = JStr ''api_key'', queryParamName = JUndefined,
       scheme = JUndefined,
       auth_description = JStr ''API Key authentication (detected from docs)'',
       flows = JUndefined\<rparr>, [])"
  by code_simp

lemma generic_phrase_cues:
  "api_key_cue ''Send your api_key'' \<and> \<not> bearer_cue ''Send your api_key'' \<and>
   \<not> re_test (Flags True False) x_api_key_re ''Send your api_key''"
  by code_simp

theorem api_key_default_counterexample:
  "api_key_cue ''Send your api_key'' \<and> \<not> bearer_cue ''Send your api_key'' \<and>
   \<not> re_test (Flags True False) x_api_key_re ''Send your api_key'' \<and>
   headerName (auth (spec (parseTextDocs example_platform ''Send your api_key''))) = JStr ''api_key'' \<and>
   headerName (auth (spec (parseTextDocs example_platform ''Send your api_key''))) \<noteq> JStr ''X-API-Key''"
  using generic_phrase_cues by (simp add: parseTextDocs_auth generic_phrase_example)

theorem api_key_header_is_matched_text_witness:
  "api_key_cue ''Send your api_key'' \<and> \<not> bearer_cue ''Send your api_key'' \<and>
   (\<exists>m. re_match (Flags True False) header_re ''Send your api_key'' = Some m \<and>
        m_text m = ''api_key'' \<and> m_index m = 10 \<and>
        auth_type (auth (spec (parseTextDocs example_platform ''Send your api_key''))) = apiKey \<and>
        headerName (auth (spec (parseTextDocs example_platform ''Send your api_key''))) = JStr (m_text m))"
proof -
  have c: "api_key_cue ''Send your api_key''" "\<not> bearer_cue ''Send your api_key''"
    using generic_phrase_cues by simp_all
  from api_key_header_is_matched_text[OF c, of example_platform] obtain m where
    m: "re_match (Flags True False) header_re ''Send your api_key'' = Some m"
       "auth_type (auth (spec (parseTextDocs example_platform ''Send your api_key''))) = apiKey"
       "headerName (auth (spec (parseTextDocs example_platform ''Send your api_key''))) = JStr (m_text m)"
    by blast
  have "map_option (\<lambda>m. (m_text m, m_index m)) (re_match (Flags True False) header_re ''Send your api_key'')
        = Some (''api_key'', 10)"
    by code_simp
  with m(1) have "m_text m = ''api_key''" "m_index m = 10" by simp_all
  with c m show ?thesis by blast
qed

end
